theory Spec2Isabelle
  imports Main "HOL-Library.Word" "HOL-Library.AList" "HOL-Library.FSet"
begin

unbundle bit_operations_syntax

section \<open>Results of fallible calls\<close>

text \<open>
  The error values declared at the top of \<^verbatim>\<open>aclstate.go\<close> and \<^verbatim>\<open>doctree.go\<close>.
  \<open>ErrFormatted\<close> stands for an error built with \<^verbatim>\<open>fmt.Errorf\<close>, with its
  message; \<open>ErrExternal\<close> for an error handed up by a collaborator whose code is
  not part of the repository (storage driver, codecs, crypto).
\<close>

datatype error =
    ErrNoSuchUser
  | ErrFailedToDecrypt
  | ErrUserRemoved
  | ErrDocumentForbidden
  | ErrUserAlreadyExists
  | ErrNoSuchRecord
  | ErrNoSuchInvite
  | ErrOldInvite
  | ErrInsufficientPermissions
  | ErrNoReadKey
  | ErrInvalidSignature
  | ErrIncorrectRoot
  | ErrHasInvalidChanges
  | ErrNoCommonSnapshot
  | ErrFormatted string
  | ErrExternal string

text \<open>
  A Go call either returns normally with a nil error, returns a non-nil error, or
  panics (nil dereference, index out of range, explicit \<^verbatim>\<open>panic\<close>). The three are
  kept apart: a panic is not an error return, and deferred functions still run.
\<close>

datatype 'a result = Ok 'a | Err error | Panic

fun isErr :: "'a result \<Rightarrow> bool" where
  "isErr (Err e) = True"
| "isErr r = False"

section \<open>ACL state (\<^verbatim>\<open>common/pkg/acl/list/aclstate.go\<close>)\<close>

subsection \<open>Messages\<close>

text \<open>
  Modelled from the spec: the generated protobuf package \<^verbatim>\<open>aclrecordproto\<close> is not
  among the sources. The permission enumeration is the one of the spec's data model;
  each message carries the fields that \<^verbatim>\<open>aclstate.go\<close> reads. Byte slices are
  strings, as the code converts them (\<^verbatim>\<open>string(ch.Identity)\<close>) before use as keys.
\<close>

datatype aclUserPermissions = Admin | Writer | Reader | Revoked

record aclUserState =
  us_Identity :: string
  us_EncryptionKey :: string
  us_Permissions :: aclUserPermissions

record aclUserInvite =
  inv_AcceptPublicKey :: string
  inv_EncryptedReadKeys :: "string list"
  inv_Permissions :: aclUserPermissions

record aclUserJoin =
  uj_Identity :: string
  uj_EncryptionKey :: string
  uj_AcceptSignature :: string
  uj_AcceptPubKey :: string
  uj_EncryptedReadKeys :: "string list"

record aclUserAdd =
  ua_Identity :: string
  ua_EncryptionKey :: string
  ua_EncryptedReadKeys :: "string list"
  ua_Permissions :: aclUserPermissions

record aclReadKeyReplace =
  rk_Identity :: string
  rk_EncryptionKey :: string
  rk_EncryptedReadKey :: string

record aclUserRemove =
  ur_Identity :: string
  ur_ReadKeyReplaces :: "aclReadKeyReplace list"

record aclUserPermissionChange =
  pc_Identity :: string
  pc_Permissions :: aclUserPermissions

text \<open>
  The one-of of a content item; \<open>NoContent\<close> is an item with no alternative set,
  which \<^verbatim>\<open>applyChangeContent\<close> rejects in its default branch.
\<close>

datatype aclContentValue =
    UserAdd aclUserAdd
  | UserRemove aclUserRemove
  | UserInvite aclUserInvite
  | UserJoin aclUserJoin
  | UserPermissionChange aclUserPermissionChange
  | NoContent

text \<open>
  \<^verbatim>\<open>ACLData.AclContent\<close> is a slice: \<open>None\<close> is the nil slice (what decoding
  a record without items yields), \<open>Some []\<close> a non-nil slice of length 0.
\<close>

record aclData =
  AclContent :: "aclContentValue list option"

fun GetAclContent :: "aclData \<Rightarrow> aclContentValue list" where
  "GetAclContent d = (case AclContent d of None \<Rightarrow> [] | Some cs \<Rightarrow> cs)"

subsection \<open>Collaborators\<close>

text \<open>
  The key packages (\<^verbatim>\<open>encryptionkey\<close>, \<^verbatim>\<open>signingkey\<close>, \<^verbatim>\<open>symmetric\<close>) are
  outside the repository. A private encryption key is its \<^verbatim>\<open>Decrypt\<close> method;
  the remaining calls are the fields of \<open>keys\<close>: \<open>symFromBytes\<close> is
  \<^verbatim>\<open>symmetric.FromBytes\<close>, \<open>newPubKey\<close> is
  \<^verbatim>\<open>signingkey.NewSigningEd25519PubKeyFromBytes\<close> (\<open>False\<close>: the bytes are
  refused), \<open>verifySig pk msg sig\<close> is \<^verbatim>\<open>Verify\<close> of that key (\<open>None\<close>: it
  returned an error).
\<close>

type_synonym symKey = string

record keys =
  symFromBytes :: "string \<Rightarrow> symKey option"
  newPubKey :: "string \<Rightarrow> bool"
  verifySig :: "string \<Rightarrow> string \<Rightarrow> string \<Rightarrow> bool option"

text \<open>
  \<^verbatim>\<open>fnv.New64()\<close> of the Go standard library: 64-bit FNV-1, multiply by the
  prime, then xor the byte in, starting from the offset basis.
\<close>

definition fnv64_offset :: "64 word" where
  "fnv64_offset = 14695981039346656037"

definition fnv64_prime :: "64 word" where
  "fnv64_prime = 1099511628211"

fun fnv64_write :: "64 word \<Rightarrow> string \<Rightarrow> 64 word" where
  "fnv64_write h [] = h"
| "fnv64_write h (c # cs) = fnv64_write ((h * fnv64_prime) XOR of_char c) cs"

definition fnv64 :: "string \<Rightarrow> 64 word" where
  "fnv64 bs = fnv64_write fnv64_offset bs"

subsection \<open>The state\<close>

text \<open>
  \<^verbatim>\<open>type ACLState struct\<close>. \<open>encryptionKey\<close> is an interface value and may be
  nil (\<^verbatim>\<open>newACLState\<close> leaves it so). \<open>totalReadKeys\<close> is a Go \<^verbatim>\<open>int\<close>, 64 bits
  wide on the node's platforms, so \<^verbatim>\<open>++\<close> wraps. The signing key, the keychain
  and \<open>permissionsAtRecord\<close> are not touched by the functions below and are left
  out.
\<close>

record aclState =
  st_id :: string
  currentReadKeyHash :: "64 word"
  userReadKeys :: "64 word \<rightharpoonup> symKey"
  userStates :: "string \<rightharpoonup> aclUserState"
  userInvites :: "string \<rightharpoonup> aclUserInvite"
  encryptionKey :: "(string \<Rightarrow> string option) option"
  totalReadKeys :: "64 word"
  st_identity :: string

definition CurrentReadKeyHash :: "aclState \<Rightarrow> 64 word" where
  "CurrentReadKeyHash st = currentReadKeyHash st"

definition CurrentReadKey :: "aclState \<Rightarrow> symKey result" where
  "CurrentReadKey st =
     (case userReadKeys st (currentReadKeyHash st) of
        None \<Rightarrow> Err ErrNoReadKey
      | Some key \<Rightarrow> Ok key)"

definition decryptReadKeyAndHash ::
  "keys \<Rightarrow> aclState \<Rightarrow> string \<Rightarrow> (symKey \<times> 64 word) result" where
  "decryptReadKeyAndHash K st msg =
     (case encryptionKey st of
        None \<Rightarrow> Panic
      | Some decrypt \<Rightarrow>
          (case decrypt msg of
             None \<Rightarrow> Err ErrFailedToDecrypt
           | Some decrypted \<Rightarrow>
               (case symFromBytes K decrypted of
                  None \<Rightarrow> Err ErrFailedToDecrypt
                | Some key \<Rightarrow> Ok (key, fnv64 decrypted))))"

definition hasPermission :: "aclState \<Rightarrow> string \<Rightarrow> aclUserPermissions \<Rightarrow> bool" where
  "hasPermission st identity permission =
     (case userStates st identity of
        None \<Rightarrow> False
      | Some state \<Rightarrow> us_Permissions state = permission)"

text \<open>
  \<^verbatim>\<open>isUserJoin\<close> indexes element 0 whenever the slice is not nil, so a non-nil
  empty slice panics.
\<close>

fun is_UserJoin :: "aclContentValue \<Rightarrow> bool" where
  "is_UserJoin (UserJoin j) = True"
| "is_UserJoin c = False"

definition isUserJoin :: "aclData \<Rightarrow> bool result" where
  "isUserJoin d =
     (case AclContent d of
        None \<Rightarrow> Ok False
      | Some [] \<Rightarrow> Panic
      | Some (c # cs) \<Rightarrow> Ok (is_UserJoin c))"

subsection \<open>Applying content items\<close>

text \<open>
  Every function mutates the state in place and returns an error; the model returns
  the outcome together with the state as the call leaves it, also when it fails
  (nothing is undone).
\<close>

definition applyUserPermissionChange ::
  "aclUserPermissionChange \<Rightarrow> aclState \<Rightarrow> unit result \<times> aclState" where
  "applyUserPermissionChange ch st =
     (case userStates st (pc_Identity ch) of
        None \<Rightarrow> (Err ErrNoSuchUser, st)
      | Some state \<Rightarrow>
          (Ok (), st\<lparr>userStates := (userStates st)
                     (pc_Identity ch \<mapsto> state\<lparr>us_Permissions := pc_Permissions ch\<rparr>)\<rparr>))"

definition applyUserInvite :: "aclUserInvite \<Rightarrow> aclState \<Rightarrow> unit result \<times> aclState" where
  "applyUserInvite ch st =
     (Ok (), st\<lparr>userInvites := (userInvites st)(inv_AcceptPublicKey ch \<mapsto> ch)\<rparr>)"

text \<open>
  The loop shared by \<^verbatim>\<open>applyUserJoin\<close> and \<^verbatim>\<open>applyUserAdd\<close>: decrypt each
  sealed read key and store it under its hash; stop at the first failure, keeping
  the keys stored so far.
\<close>

fun saveReadKeys :: "keys \<Rightarrow> string list \<Rightarrow> aclState \<Rightarrow> unit result \<times> aclState" where
  "saveReadKeys K [] st = (Ok (), st)"
| "saveReadKeys K (k # ks) st =
     (case decryptReadKeyAndHash K st k of
        Panic \<Rightarrow> (Panic, st)
      | Err e \<Rightarrow> (Err ErrFailedToDecrypt, st)
      | Ok (key, hash) \<Rightarrow>
          saveReadKeys K ks (st\<lparr>userReadKeys := (userReadKeys st)(hash \<mapsto> key)\<rparr>))"

definition applyUserJoin :: "keys \<Rightarrow> aclUserJoin \<Rightarrow> aclState \<Rightarrow> unit result \<times> aclState" where
  "applyUserJoin K ch st =
     (case userInvites st (uj_AcceptPubKey ch) of
        None \<Rightarrow> (Err (ErrFormatted ''no such invite with such public key''), st)
      | Some invite \<Rightarrow>
          if userStates st (uj_Identity ch) \<noteq> None then (Err ErrUserAlreadyExists, st)
          else if \<not> newPubKey K (inv_AcceptPublicKey invite) then
            (Err (ErrFormatted
               ''public key verifying invite accepts is given in incorrect format''), st)
          else
            (case verifySig K (inv_AcceptPublicKey invite) (uj_Identity ch)
                    (uj_AcceptSignature ch) of
               None \<Rightarrow> (Err (ErrFormatted ''verification returned error''), st)
             | Some res \<Rightarrow>
                 if \<not> res then (Err ErrInvalidSignature, st)
                 else
                   (case (if st_identity st = uj_Identity ch
                          then saveReadKeys K (uj_EncryptedReadKeys ch) st
                          else (Ok (), st)) of
                      (Ok u, st1) \<Rightarrow>
                        (Ok (), st1\<lparr>userStates := (userStates st1)
                           (uj_Identity ch \<mapsto>
                              \<lparr>us_Identity = uj_Identity ch,
                               us_EncryptionKey = uj_EncryptionKey ch,
                               us_Permissions = inv_Permissions invite\<rparr>)\<rparr>)
                    | (r, st1) \<Rightarrow> (r, st1))))"

definition applyUserAdd :: "keys \<Rightarrow> aclUserAdd \<Rightarrow> aclState \<Rightarrow> unit result \<times> aclState" where
  "applyUserAdd K ch st =
     (if userStates st (ua_Identity ch) \<noteq> None then (Err ErrUserAlreadyExists, st)
      else
        (let st1 = st\<lparr>userStates := (userStates st)
                      (ua_Identity ch \<mapsto>
                         \<lparr>us_Identity = ua_Identity ch,
                          us_EncryptionKey = ua_EncryptionKey ch,
                          us_Permissions = ua_Permissions ch\<rparr>)\<rparr>
         in if ua_Identity ch = st_identity st
            then saveReadKeys K (ua_EncryptedReadKeys ch) st1
            else (Ok (), st1)))"

text \<open>
  The loop of \<^verbatim>\<open>applyUserRemove\<close>: only the first replacement addressed to the
  node's own identity is looked at; the others are skipped without any check.
\<close>

fun replaceReadKey ::
  "keys \<Rightarrow> aclReadKeyReplace list \<Rightarrow> aclState \<Rightarrow> unit result \<times> aclState" where
  "replaceReadKey K [] st = (Ok (), st)"
| "replaceReadKey K (rep # reps) st =
     (if rk_Identity rep = st_identity st then
        (case decryptReadKeyAndHash K st (rk_EncryptedReadKey rep) of
           Panic \<Rightarrow> (Panic, st)
         | Err e \<Rightarrow> (Err ErrFailedToDecrypt, st)
         | Ok (key, hash) \<Rightarrow>
             (Ok (), st\<lparr>userReadKeys := (userReadKeys st)(hash \<mapsto> key)\<rparr>))
      else replaceReadKey K reps st)"

definition applyUserRemove :: "keys \<Rightarrow> aclUserRemove \<Rightarrow> aclState \<Rightarrow> unit result \<times> aclState" where
  "applyUserRemove K ch st =
     (if ur_Identity ch = st_identity st then (Err ErrDocumentForbidden, st)
      else if userStates st (ur_Identity ch) = None then (Err ErrNoSuchUser, st)
      else replaceReadKey K (ur_ReadKeyReplaces ch)
             (st\<lparr>userStates := (userStates st)(ur_Identity ch := None)\<rparr>))"

fun applyChangeContent ::
  "keys \<Rightarrow> aclContentValue \<Rightarrow> aclState \<Rightarrow> unit result \<times> aclState" where
  "applyChangeContent K (UserPermissionChange ch) st = applyUserPermissionChange ch st"
| "applyChangeContent K (UserAdd ch) st = applyUserAdd K ch st"
| "applyChangeContent K (UserRemove ch) st = applyUserRemove K ch st"
| "applyChangeContent K (UserInvite ch) st = applyUserInvite ch st"
| "applyChangeContent K (UserJoin ch) st = applyUserJoin K ch st"
| "applyChangeContent K NoContent st = (Err (ErrFormatted ''unexpected change type''), st)"

text \<open>The \<^verbatim>\<open>for\<close> loop of \<^verbatim>\<open>applyChangeData\<close>: stop at the first item that fails.\<close>

fun applyContents ::
  "keys \<Rightarrow> aclContentValue list \<Rightarrow> aclState \<Rightarrow> unit result \<times> aclState" where
  "applyContents K [] st = (Ok (), st)"
| "applyContents K (ch # chs) st =
     (case applyChangeContent K ch st of
        (Ok u, st1) \<Rightarrow> applyContents K chs st1
      | (r, st1) \<Rightarrow> (r, st1))"

text \<open>The body of \<^verbatim>\<open>applyChangeData\<close>, without its deferred function.\<close>

definition applyChangeData_body ::
  "keys \<Rightarrow> aclData \<Rightarrow> string \<Rightarrow> aclState \<Rightarrow> unit result \<times> aclState" where
  "applyChangeData_body K changeData identity st =
     (case isUserJoin changeData of
        Panic \<Rightarrow> (Panic, st)
      | Err e \<Rightarrow> (Err e, st)
      | Ok join \<Rightarrow>
          if \<not> join then
            (if userStates st identity = None then (Err ErrNoSuchUser, st)
             else if \<not> hasPermission st identity Admin then
               (Err (ErrFormatted ''user must have admin permissions''), st)
             else applyContents K (GetAclContent changeData) st)
          else applyContents K (GetAclContent changeData) st)"

text \<open>
  The deferred function runs on every way out of the body. It returns at once when
  the named result \<^verbatim>\<open>err\<close> is set; during a panic \<^verbatim>\<open>err\<close> is still nil, so the
  rotation runs then as well.
\<close>

definition rotateReadKey :: "64 word \<Rightarrow> unit result \<Rightarrow> aclState \<Rightarrow> aclState" where
  "rotateReadKey hash r st =
     (if isErr r then st
      else if hash \<noteq> currentReadKeyHash st then
        st\<lparr>totalReadKeys := totalReadKeys st + 1, currentReadKeyHash := hash\<rparr>
      else st)"

definition applyChangeData ::
  "keys \<Rightarrow> aclData \<Rightarrow> 64 word \<Rightarrow> string \<Rightarrow> aclState \<Rightarrow> unit result \<times> aclState" where
  "applyChangeData K changeData hash identity st =
     (case applyChangeData_body K changeData identity st of
        (r, st1) \<Rightarrow> (r, rotateReadKey hash r st1))"

section \<open>Hot sync (\<^verbatim>\<open>nodesync/hotsync\<close>)\<close>

text \<open>
  The space service is outside the package. \<open>GetSpace c id\<close> is one call of
  \<^verbatim>\<open>spaceService.GetSpace\<close> on the service in state \<open>c\<close>: whether it returned
  without error, and the state it leaves. \<open>CacheIds c\<close> lists the ids that
  \<^verbatim>\<open>Cache().ForEach\<close> visits.
\<close>

record 'c spaceService =
  GetSpace :: "'c \<Rightarrow> string \<Rightarrow> bool \<times> 'c"
  CacheIds :: "'c \<Rightarrow> string list"

text \<open>
  \<^verbatim>\<open>type hotSync struct\<close>. \<open>syncQueue\<close> is a \<^verbatim>\<open>map[string]struct{}\<close>, a finite
  set. \<open>hit\<close> and \<open>miss\<close> are pointers to atomics owned by the caller of
  \<^verbatim>\<open>SetMetric\<close>: nil before that call, and possibly the same atomic twice, so
  they are addresses into the store \<open>atomics\<close> of 32-bit counters.
  \<open>simultaneousSync\<close> is a Go \<^verbatim>\<open>int\<close> of 64 bits.
\<close>

record 'c hotSync =
  spaceQueue :: "string list"
  syncQueue :: "string fset"
  simultaneousSync :: "64 word"
  hit :: "nat option"
  miss :: "nat option"
  atomics :: "nat \<Rightarrow> 32 word"
  service :: 'c

definition go_min :: "int \<Rightarrow> int \<Rightarrow> int" where
  "go_min x y = (if x < y then x else y)"

text \<open>
  \<^verbatim>\<open>batchLen\<close>: the subtraction is done on 64-bit integers and read back signed.
\<close>

definition batchLen :: "'c hotSync \<Rightarrow> int" where
  "batchLen h =
     (let newBatchLen = sint (simultaneousSync h - of_nat (fcard (syncQueue h)))
      in go_min newBatchLen (int (length (spaceQueue h))))"

definition checkRemoved :: "'c spaceService \<Rightarrow> 'c hotSync \<Rightarrow> int \<times> 'c hotSync" where
  "checkRemoved S h =
     (let allIds = fset_of_list (CacheIds S (service h))
      in (int (fcard (ffilter (\<lambda>sid. sid |\<notin>| allIds) (syncQueue h))),
          h\<lparr>syncQueue := ffilter (\<lambda>sid. sid |\<in>| allIds) (syncQueue h)\<rparr>))"

text \<open>\<^verbatim>\<open>atomic.Uint32.Add(1)\<close> through a pointer; a nil pointer panics.\<close>

definition atomicAdd1 :: "nat option \<Rightarrow> (nat \<Rightarrow> 32 word) \<Rightarrow> (nat \<Rightarrow> 32 word) option" where
  "atomicAdd1 p m = (case p of None \<Rightarrow> None | Some a \<Rightarrow> Some (m(a := m a + 1)))"

text \<open>The loop over the dequeued ids in \<^verbatim>\<open>checkCache\<close>.\<close>

fun warm :: "'c spaceService \<Rightarrow> string list \<Rightarrow> 'c hotSync \<Rightarrow> unit result \<times> 'c hotSync" where
  "warm S [] h = (Ok (), h)"
| "warm S (sid # ids) h =
     (case GetSpace S (service h) sid of
        (False, c) \<Rightarrow>
          (case atomicAdd1 (hit h) (atomics h) of
             None \<Rightarrow> (Panic, h\<lparr>service := c\<rparr>)
           | Some m \<Rightarrow> warm S ids (h\<lparr>service := c, atomics := m\<rparr>))
      | (True, c) \<Rightarrow>
          (case atomicAdd1 (miss h) (atomics h) of
             None \<Rightarrow> (Panic, h\<lparr>service := c\<rparr>)
           | Some m \<Rightarrow>
               warm S ids (h\<lparr>service := c, atomics := m,
                             syncQueue := finsert sid (syncQueue h)\<rparr>)))"

text \<open>
  \<^verbatim>\<open>checkCache\<close>. Slicing \<^verbatim>\<open>h.spaceQueue[:newBatchLen]\<close> with a negative bound
  panics; the bound never exceeds the length, by \<^verbatim>\<open>min\<close>.
\<close>

definition checkCache :: "'c spaceService \<Rightarrow> 'c hotSync \<Rightarrow> unit result \<times> 'c hotSync" where
  "checkCache S h =
     (case checkRemoved S h of
        (removed, h1) \<Rightarrow>
          (let newBatchLen = batchLen h1 in
           if newBatchLen < 0 then (Panic, h1)
           else
             (let cp = take (nat newBatchLen) (spaceQueue h1);
                  h2 = h1\<lparr>spaceQueue := drop (nat newBatchLen) (spaceQueue h1)\<rparr>
              in warm S cp h2)))"

text \<open>
  What the loop of \<^verbatim>\<open>checkCache\<close> is meant to do, stated apart from it: the
  loads in order with their outcomes, and the effect of one outcome on the counters.
\<close>

fun loads :: "'c spaceService \<Rightarrow> 'c \<Rightarrow> string list \<Rightarrow> (string \<times> bool) list" where
  "loads S c [] = []"
| "loads S c (sid # ids) =
     (case GetSpace S c sid of (ok, c1) \<Rightarrow> (sid, ok) # loads S c1 ids)"

fun served :: "'c spaceService \<Rightarrow> 'c \<Rightarrow> string list \<Rightarrow> 'c" where
  "served S c [] = c"
| "served S c (sid # ids) = served S (snd (GetSpace S c sid)) ids"

definition count1 ::
  "nat \<Rightarrow> nat \<Rightarrow> (nat \<Rightarrow> 32 word) \<Rightarrow> string \<times> bool \<Rightarrow> (nat \<Rightarrow> 32 word)" where
  "count1 hitp missp m l =
     (if snd l then m(missp := m missp + 1) else m(hitp := m hitp + 1))"

section \<open>Peer manager (\<^verbatim>\<open>nodespace/peermanager/manager.go\<close>)\<close>

text \<open>
  Instants are nanoseconds on the integer line, \<open>0\<close> being the zero
  \<^verbatim>\<open>time.Time\<close> that a fresh \<^verbatim>\<open>atomic.Time\<close> holds. \<^verbatim>\<open>time.Since\<close> yields a
  \<^verbatim>\<open>Duration\<close>, a 64-bit count of nanoseconds that saturates.
\<close>

record responsiblePeer =
  peerId :: string
  lastFail :: int

record nodePeerManager =
  spaceId :: string
  responsiblePeers :: "responsiblePeer list"
  responsiblePeersUpdated :: int

definition minute :: int where
  "minute = 60 * 1000000000"

definition since :: "int \<Rightarrow> int \<Rightarrow> int" where
  "since now t = max (- (2 ^ 63)) (min (2 ^ 63 - 1) (now - t))"

text \<open>
  \<^verbatim>\<open>getResponsiblePeersObjects\<close>. \<open>nodeIds\<close> is what
  \<^verbatim>\<open>nodeconf.NodeIds(spaceId)\<close> returns at this call, \<open>now\<close> the clock at the
  test and \<open>now'\<close> the clock when the update time is stored.
\<close>

definition fresh :: "int \<Rightarrow> nodePeerManager \<Rightarrow> bool" where
  "fresh now n \<longleftrightarrow>
     length (responsiblePeers n) \<noteq> 0 \<and> since now (responsiblePeersUpdated n) < minute"

definition getResponsiblePeersObjects ::
  "string list \<Rightarrow> int \<Rightarrow> int \<Rightarrow> nodePeerManager \<Rightarrow> responsiblePeer list \<times> nodePeerManager" where
  "getResponsiblePeersObjects nodeIds now now' n =
     (if fresh now n then (responsiblePeers n, n)
      else
        (let n1 = n\<lparr>responsiblePeers :=
                      responsiblePeers n @
                      map (\<lambda>p. \<lparr>peerId = p, lastFail = 0\<rparr>) nodeIds\<rparr>;
             n2 = n1\<lparr>responsiblePeersUpdated := now'\<rparr>
         in (responsiblePeers n2, n2)))"

text \<open>
  A history of calls under a fixed configuration, each call given by its two clock
  readings, and the number of those calls that refreshed the list.
\<close>

fun calls :: "string list \<Rightarrow> (int \<times> int) list \<Rightarrow> nodePeerManager \<Rightarrow> nodePeerManager" where
  "calls nodeIds [] n = n"
| "calls nodeIds ((now, now') # ts) n =
     calls nodeIds ts (snd (getResponsiblePeersObjects nodeIds now now' n))"

fun refreshes :: "string list \<Rightarrow> (int \<times> int) list \<Rightarrow> nodePeerManager \<Rightarrow> nat" where
  "refreshes nodeIds [] n = 0"
| "refreshes nodeIds ((now, now') # ts) n =
     (if fresh now n then 0 else 1) +
     refreshes nodeIds ts (snd (getResponsiblePeersObjects nodeIds now now' n))"

section \<open>Document tree (\<^verbatim>\<open>pkg/acl/tree/doctree.go\<close>)\<close>

subsection \<open>Data\<close>

record rawChange =
  rc_Payload :: string
  rc_Signature :: string
  rc_Id :: string

text \<open>
  Modelled from the spec: the message \<^verbatim>\<open>aclpb.Change\<close>, the type \<^verbatim>\<open>Change\<close>
  with its constructor \<^verbatim>\<open>NewChange\<close>, and the type \<^verbatim>\<open>Tree\<close> with \<^verbatim>\<open>Heads\<close>
  and \<^verbatim>\<open>RootId\<close> are declared in files that are not among the sources. The
  message has the fields that \<^verbatim>\<open>AddContent\<close> fills in; a change has the
  attributes of the spec's data model that \<^verbatim>\<open>doctree.go\<close> reads; a tree has the
  spec's four attributes, the partitions being the maps \<^verbatim>\<open>attached\<close> and
  \<^verbatim>\<open>unAttached\<close> that \<^verbatim>\<open>doctree.go\<close> indexes. The maps are kept as
  association lists, read through \<open>map_of\<close>, because recomputing the heads
  enumerates them.
\<close>

record aclChange =
  TreeHeadIds :: "string list"
  AclHeadId :: string
  SnapshotBaseId :: string
  ac_CurrentReadKeyHash :: "64 word"
  Timestamp :: int
  ac_Identity :: string
  ac_IsSnapshot :: bool
  ChangesData :: string

record change =
  ch_Id :: string
  ch_PreviousIds :: "string list"
  ch_AclHeadId :: string
  ch_SnapshotId :: string
  ch_IsSnapshot :: bool
  ch_Content :: aclChange
  ch_Sign :: string

definition NewChange :: "string \<Rightarrow> aclChange \<Rightarrow> string \<Rightarrow> change" where
  "NewChange cid ch signature =
     \<lparr>ch_Id = cid, ch_PreviousIds = TreeHeadIds ch, ch_AclHeadId = AclHeadId ch,
      ch_SnapshotId = SnapshotBaseId ch, ch_IsSnapshot = ac_IsSnapshot ch,
      ch_Content = ch, ch_Sign = signature\<rparr>"

record tree =
  attached :: "(string \<times> change) list"
  unAttached :: "(string \<times> change) list"
  headIds :: "string list"
  rootId :: string

definition Heads :: "tree \<Rightarrow> string list" where
  "Heads t = headIds t"

definition RootId :: "tree \<Rightarrow> string" where
  "RootId t = rootId t"

text \<open>\<^verbatim>\<open>&Tree{}\<close>, the zero tree that \<^verbatim>\<open>AddContent\<close> installs for a snapshot.\<close>

definition emptyTree :: tree where
  "emptyTree = \<lparr>attached = [], unAttached = [], headIds = [], rootId = []\<rparr>"

datatype Mode = Nothing | Append | Rebuild

datatype AddResultSummary =
  AddResultSummaryNothing | AddResultSummaryAppend | AddResultSummaryRebuild

record AddResult =
  OldHeads :: "string list"
  Heads_of :: "string list"
  Added :: "rawChange list"
  Summary :: AddResultSummary

text \<open>The zero \<^verbatim>\<open>AddResult\<close>, which the named result holds on the error returns.\<close>

definition zeroAddResult :: AddResult where
  "zeroAddResult =
     \<lparr>OldHeads = [], Heads_of = [], Added = [], Summary = AddResultSummaryNothing\<rparr>"

text \<open>
  The ACL list as the tree uses it: \<^verbatim>\<open>ACLState()\<close> and \<^verbatim>\<open>Head().Id\<close>.
\<close>

record aclList =
  ACLState :: aclState
  HeadId :: string

text \<open>
  The content handed to \<^verbatim>\<open>AddContent\<close>: the outcome of marshalling its
  payload, the signing method of its key, the author and the snapshot flag.
\<close>

record signableChangeContent =
  Proto_Marshal :: "error + string"
  Key_Sign :: "string \<Rightarrow> error + string"
  sc_Identity :: string
  sc_IsSnapshot :: bool

text \<open>
  What is observable from outside: each call on the storage handle and each call
  on the listener is recorded, in order.
\<close>

datatype storageCall = AddRawChangeCall rawChange | SetHeadsCall "string list"

datatype listenerCall = UpdateCall | RebuildCall

text \<open>
  \<^verbatim>\<open>type docTree struct\<close>. \<open>treeStorage\<close> is the state behind the storage
  handle; \<open>updateListener\<close> tells whether a listener is installed (the field may be
  nil); \<open>tree\<close> is a pointer, nil after a failed build. The four buffers are
  emptied on entry to \<^verbatim>\<open>addRawChanges\<close> and are locals of the model.
\<close>

record 's docTree =
  treeStorage :: 's
  updateListener :: bool
  tree :: "tree option"
  storageCalls :: "storageCall list"
  listenerCalls :: "listenerCall list"

text \<open>
  The collaborators of \<^verbatim>\<open>docTree\<close> whose code is not among the sources, as
  parameters: the change codec with signature check, the tree operations, the
  builder, the validator, the storage driver, the zero value of \<^verbatim>\<open>Mode\<close> (the
  declaration of \<^verbatim>\<open>Mode\<close> is missing too; the named result \<^verbatim>\<open>mode\<close> holds
  that value on the returns that never assign it), and the codecs and ciphers
  \<^verbatim>\<open>AddContent\<close> calls. \<open>Build\<close> reads the storage and yields an error or a
  tree.
\<close>

record 's deps =
  NewVerifiedChangeFromRaw :: "rawChange \<Rightarrow> error + change"
  Tree_Add :: "tree \<Rightarrow> change list \<Rightarrow> Mode \<times> tree"
  AddMergedHead :: "tree \<Rightarrow> change \<Rightarrow> error + tree"
  reduceTree :: "tree \<Rightarrow> tree"
  clearPossibleRoots :: "tree \<Rightarrow> tree"
  Build :: "'s \<Rightarrow> change list \<Rightarrow> error + tree"
  ValidateTree :: "tree \<Rightarrow> aclList \<Rightarrow> error option"
  storage_AddRawChange :: "'s \<Rightarrow> rawChange \<Rightarrow> error option \<times> 's"
  storage_SetHeads :: "'s \<Rightarrow> string list \<Rightarrow> error option \<times> 's"
  zeroMode :: Mode
  Encrypt :: "symKey \<Rightarrow> string \<Rightarrow> error + string"
  Marshal :: "aclChange \<Rightarrow> error + string"
  NewCIDFromBytes :: "string \<Rightarrow> error + string"

text \<open>A call returns or panics.\<close>

datatype 'a call = Returns 'a | Panics

subsection \<open>Slices\<close>

text \<open>
  \<^verbatim>\<open>make([]string, len, cap)\<close> is a slice of \<open>len\<close> empty strings, whatever
  the capacity; \<^verbatim>\<open>copy(dst, src)\<close> overwrites the first
  \<open>min (len dst) (len src)\<close> elements of \<open>dst\<close> and leaves its length alone.
\<close>

definition go_make :: "nat \<Rightarrow> nat \<Rightarrow> string list" where
  "go_make len cap = replicate len []"

definition go_copy :: "'a list \<Rightarrow> 'a list \<Rightarrow> 'a list" where
  "go_copy dst src =
     (let n = min (length dst) (length src) in take n src @ drop n dst)"

text \<open>
  The two lines that build \<^verbatim>\<open>prevHeadsCopy\<close>, and the closure \<^verbatim>\<open>headsCopy\<close>,
  which repeats them.
\<close>

definition headsCopy :: "tree \<Rightarrow> string list" where
  "headsCopy t = (let newHeads = go_make 0 (length (Heads t)) in go_copy newHeads (Heads t))"

subsection \<open>\<^verbatim>\<open>addRawChanges\<close>\<close>

definition HasChange :: "tree \<Rightarrow> string \<Rightarrow> bool" where
  "HasChange t s \<longleftrightarrow> map_of (attached t) s \<noteq> None \<or> map_of (unAttached t) s \<noteq> None"

text \<open>
  The filtering loop: \<open>idx\<close> is the position reached, the triple holds
  \<^verbatim>\<open>tmpChangesBuf\<close>, \<^verbatim>\<open>newSnapshotsBuf\<close> and \<^verbatim>\<open>notSeenIdxBuf\<close>.
\<close>

fun filterChanges ::
  "'s deps \<Rightarrow> tree \<Rightarrow> nat \<Rightarrow> rawChange list \<Rightarrow> change list \<times> change list \<times> nat list \<Rightarrow>
   error + (change list \<times> change list \<times> nat list)" where
  "filterChanges D t idx [] bufs = Inr bufs"
| "filterChanges D t idx (ch # rest) (tmp, snaps, notSeen) =
     (if HasChange t (rc_Id ch) then filterChanges D t (Suc idx) rest (tmp, snaps, notSeen)
      else
        (case NewVerifiedChangeFromRaw D ch of
           Inl e \<Rightarrow> Inl e
         | Inr c \<Rightarrow>
             filterChanges D t (Suc idx) rest
               (tmp @ [c], (if ch_IsSnapshot c then snaps @ [c] else snaps),
                notSeen @ [idx])))"

definition getAddedChanges :: "rawChange list \<Rightarrow> nat list \<Rightarrow> tree \<Rightarrow> rawChange list" where
  "getAddedChanges rawChanges notSeen t =
     map (\<lambda>idx. rawChanges ! idx)
       (filter (\<lambda>idx. map_of (attached t) (rc_Id (rawChanges ! idx)) \<noteq> None) notSeen)"

fun rollback :: "change list \<Rightarrow> tree \<Rightarrow> tree" where
  "rollback [] t = t"
| "rollback (ch # chs) t =
     rollback chs
       (if map_of (attached t) (ch_Id ch) \<noteq> None then
          t\<lparr>attached := AList.delete (ch_Id ch) (attached t)\<rparr>
        else if map_of (unAttached t) (ch_Id ch) \<noteq> None then
          t\<lparr>unAttached := AList.delete (ch_Id ch) (unAttached t)\<rparr>
        else t)"

definition isOldSnapshot :: "tree \<Rightarrow> change list \<Rightarrow> change \<Rightarrow> bool" where
  "isOldSnapshot t snaps ch \<longleftrightarrow>
     (if ch_SnapshotId ch = RootId t then False
      else if \<exists>sn \<in> set snaps. ch_SnapshotId ch = ch_Id sn then False
      else True)"

text \<open>
  \<^verbatim>\<open>rebuildFromStorage\<close>: the result of \<^verbatim>\<open>Build\<close> is assigned to the tree
  pointer before the error is looked at, so a failed build leaves nil.
\<close>

definition rebuildFromStorage ::
  "'s deps \<Rightarrow> aclList \<Rightarrow> change list \<Rightarrow> 's docTree \<Rightarrow> error option \<times> 's docTree" where
  "rebuildFromStorage D acl newChanges d =
     (case Build D (treeStorage d) newChanges of
        Inl e \<Rightarrow> (Some e, d\<lparr>tree := None\<rparr>)
      | Inr t \<Rightarrow>
          (let t1 = clearPossibleRoots D t
           in (ValidateTree D t1 acl, d\<lparr>tree := Some t1\<rparr>)))"

definition addRawChanges ::
  "'s deps \<Rightarrow> aclList \<Rightarrow> rawChange list \<Rightarrow> 's docTree \<Rightarrow>
   (Mode \<times> AddResult \<times> error option) call \<times> 's docTree" where
  "addRawChanges D acl rawChanges d =
     (case tree d of
        None \<Rightarrow> (Panics, d)
      | Some t \<Rightarrow>
          (let prevHeadsCopy = headsCopy t in
           case filterChanges D t 0 rawChanges ([], [], []) of
             Inl e \<Rightarrow> (Returns (zeroMode D, zeroAddResult, Some e), d)
           | Inr (tmpChangesBuf, newSnapshotsBuf, notSeenIdxBuf) \<Rightarrow>
               if length notSeenIdxBuf = 0 then
                 (Returns (zeroMode D,
                    \<lparr>OldHeads = prevHeadsCopy, Heads_of = prevHeadsCopy, Added = [],
                     Summary = AddResultSummaryNothing\<rparr>, None), d)
               else if \<exists>ch \<in> set tmpChangesBuf. isOldSnapshot t newSnapshotsBuf ch then
                 (case rebuildFromStorage D acl tmpChangesBuf d of
                    (Some e, d1) \<Rightarrow>
                      (Returns (zeroMode D, zeroAddResult, Some e),
                       snd (rebuildFromStorage D acl [] d1))
                  | (None, d1) \<Rightarrow>
                      (case tree d1 of
                         None \<Rightarrow> (Panics, d1)
                       | Some t1 \<Rightarrow>
                           (Returns (zeroMode D,
                              \<lparr>OldHeads = prevHeadsCopy, Heads_of = headsCopy t1,
                               Added = getAddedChanges rawChanges notSeenIdxBuf t1,
                               Summary = AddResultSummaryRebuild\<rparr>, None), d1)))
               else
                 (case Tree_Add D t tmpChangesBuf of
                    (Nothing, t1) \<Rightarrow>
                      (Returns (Nothing,
                         \<lparr>OldHeads = prevHeadsCopy, Heads_of = prevHeadsCopy, Added = [],
                          Summary = AddResultSummaryNothing\<rparr>, None), d\<lparr>tree := Some t1\<rparr>)
                  | (mode, t1) \<Rightarrow>
                      (case ValidateTree D t1 acl of
                         Some e \<Rightarrow>
                           (Returns (mode, zeroAddResult, Some ErrHasInvalidChanges),
                            d\<lparr>tree := Some (rollback tmpChangesBuf t1)\<rparr>)
                       | None \<Rightarrow>
                           (Returns (mode,
                              \<lparr>OldHeads = prevHeadsCopy, Heads_of = headsCopy t1,
                               Added = getAddedChanges rawChanges notSeenIdxBuf t1,
                               Summary = AddResultSummaryAppend\<rparr>, None),
                            d\<lparr>tree := Some t1\<rparr>)))))"

subsection \<open>\<^verbatim>\<open>AddRawChanges\<close>\<close>

definition callAddRawChange :: "'s deps \<Rightarrow> rawChange \<Rightarrow> 's docTree \<Rightarrow> error option \<times> 's docTree" where
  "callAddRawChange D ch d =
     (case storage_AddRawChange D (treeStorage d) ch of
        (err, s) \<Rightarrow>
          (err, d\<lparr>treeStorage := s, storageCalls := storageCalls d @ [AddRawChangeCall ch]\<rparr>))"

definition callSetHeads :: "'s deps \<Rightarrow> string list \<Rightarrow> 's docTree \<Rightarrow> error option \<times> 's docTree" where
  "callSetHeads D hs d =
     (case storage_SetHeads D (treeStorage d) hs of
        (err, s) \<Rightarrow>
          (err, d\<lparr>treeStorage := s, storageCalls := storageCalls d @ [SetHeadsCall hs]\<rparr>))"

text \<open>The loop that stores the added changes, stopping at the first error.\<close>

fun storeAdded :: "'s deps \<Rightarrow> rawChange list \<Rightarrow> 's docTree \<Rightarrow> error option \<times> 's docTree" where
  "storeAdded D [] d = (None, d)"
| "storeAdded D (ch # chs) d =
     (case callAddRawChange D ch d of
        (Some e, d1) \<Rightarrow> (Some e, d1)
      | (None, d1) \<Rightarrow> storeAdded D chs d1)"

definition notify :: "Mode \<Rightarrow> 's docTree \<Rightarrow> 's docTree" where
  "notify mode d =
     (if \<not> updateListener d then d
      else
        (case mode of
           Append \<Rightarrow> d\<lparr>listenerCalls := listenerCalls d @ [UpdateCall]\<rparr>
         | Rebuild \<Rightarrow> d\<lparr>listenerCalls := listenerCalls d @ [RebuildCall]\<rparr>
         | Nothing \<Rightarrow> d))"

definition AddRawChanges ::
  "'s deps \<Rightarrow> aclList \<Rightarrow> rawChange list \<Rightarrow> 's docTree \<Rightarrow>
   (AddResult \<times> error option) call \<times> 's docTree" where
  "AddRawChanges D acl rawChanges d =
     (case addRawChanges D acl rawChanges d of
        (Panics, d1) \<Rightarrow> (Panics, d1)
      | (Returns (mode, addResult, Some e), d1) \<Rightarrow> (Returns (addResult, Some e), d1)
      | (Returns (mode, addResult, None), d1) \<Rightarrow>
          (case tree d1 of
             None \<Rightarrow> (Panics, d1)
           | Some t1 \<Rightarrow>
               (let d2 = d1\<lparr>tree := Some (reduceTree D t1)\<rparr> in
                case storeAdded D (Added addResult) d2 of
                  (Some e, d3) \<Rightarrow> (Returns (addResult, Some e), d3)
                | (None, d3) \<Rightarrow>
                    (case callSetHeads D (Heads (reduceTree D t1)) d3 of
                       (Some e, d4) \<Rightarrow> (Returns (addResult, Some e), d4)
                     | (None, d4) \<Rightarrow> (Returns (addResult, None), notify mode d4)))))"

subsection \<open>\<^verbatim>\<open>AddContent\<close>\<close>

text \<open>
  The body of \<^verbatim>\<open>AddContent\<close> without its deferred function. \<open>now\<close> is the
  value of \<^verbatim>\<open>time.Now().Nanosecond()\<close>. A failure of \<^verbatim>\<open>AddMergedHead\<close>
  panics. The named result \<^verbatim>\<open>rawChange\<close> is already set when a storage call
  fails.
\<close>

definition AddContent_body ::
  "'s deps \<Rightarrow> aclList \<Rightarrow> signableChangeContent \<Rightarrow> int \<Rightarrow> 's docTree \<Rightarrow>
   (rawChange option \<times> error option) call \<times> 's docTree" where
  "AddContent_body D acl content now d =
     (case tree d of
        None \<Rightarrow> (Panics, d)
      | Some t \<Rightarrow>
          (let state = ACLState acl;
               aclChange0 =
                 \<lparr>TreeHeadIds = Heads t, AclHeadId = HeadId acl, SnapshotBaseId = RootId t,
                  ac_CurrentReadKeyHash = CurrentReadKeyHash state, Timestamp = now,
                  ac_Identity = sc_Identity content, ac_IsSnapshot = sc_IsSnapshot content,
                  ChangesData = []\<rparr>
           in
           case Proto_Marshal content of
             Inl e \<Rightarrow> (Returns (None, Some e), d)
           | Inr marshalledData \<Rightarrow>
           (case CurrentReadKey state of
             Err e \<Rightarrow> (Returns (None, Some e), d)
           | Panic \<Rightarrow> (Panics, d)
           | Ok readKey \<Rightarrow>
           (case Encrypt D readKey marshalledData of
             Inl e \<Rightarrow> (Returns (None, Some e), d)
           | Inr encrypted \<Rightarrow>
           (let aclChange = aclChange0\<lparr>ChangesData := encrypted\<rparr> in
            case Marshal D aclChange of
             Inl e \<Rightarrow> (Returns (None, Some e), d)
           | Inr fullMarshalledChange \<Rightarrow>
           (case Key_Sign content fullMarshalledChange of
             Inl e \<Rightarrow> (Returns (None, Some e), d)
           | Inr signature \<Rightarrow>
           (case NewCIDFromBytes D fullMarshalledChange of
             Inl e \<Rightarrow> (Returns (None, Some e), d)
           | Inr cid \<Rightarrow>
           (let docChange = NewChange cid aclChange signature;
                t0 = (if sc_IsSnapshot content then emptyTree else t)
            in
            case AddMergedHead D t0 docChange of
              Inl e \<Rightarrow> (Panics, d\<lparr>tree := Some t0\<rparr>)
            | Inr t1 \<Rightarrow>
            (let rawChange =
                   \<lparr>rc_Payload = fullMarshalledChange, rc_Signature = ch_Sign docChange,
                    rc_Id = ch_Id docChange\<rparr>
             in
             case callAddRawChange D rawChange (d\<lparr>tree := Some t1\<rparr>) of
               (Some e, d1) \<Rightarrow> (Returns (Some rawChange, Some e), d1)
             | (None, d1) \<Rightarrow>
                 (case callSetHeads D [ch_Id docChange] d1 of
                    (err, d2) \<Rightarrow> (Returns (Some rawChange, err), d2)))))))))))"

text \<open>
  The deferred function: it runs on every way out of the body, a panic included,
  and calls \<^verbatim>\<open>Update\<close> when a listener is installed.
\<close>

definition AddContent ::
  "'s deps \<Rightarrow> aclList \<Rightarrow> signableChangeContent \<Rightarrow> int \<Rightarrow> 's docTree \<Rightarrow>
   (rawChange option \<times> error option) call \<times> 's docTree" where
  "AddContent D acl content now d =
     (case AddContent_body D acl content now d of
        (r, d1) \<Rightarrow>
          (r, if updateListener d1
              then d1\<lparr>listenerCalls := listenerCalls d1 @ [UpdateCall]\<rparr>
              else d1))"

section \<open>The collaborators as the spec describes them\<close>

subsection \<open>Tree operations\<close>

text \<open>
  Modelled from the spec: \<^verbatim>\<open>Tree.Add\<close> and \<^verbatim>\<open>Tree.reduceTree\<close> (the file that
  defines \<^verbatim>\<open>Tree\<close> is not among the sources), after section 4.2. A candidate
  whose parents are all attached is attached, and the unattached changes that have
  become attachable are drained after it; any other candidate is placed among the
  unattached. The heads are then recomputed as the attached changes that no
  attached change lists as a parent. The mode is \<open>Nothing\<close> when nothing was
  attached, \<open>Rebuild\<close> when a newly attached change precedes a prior head, and
  \<open>Append\<close> otherwise.
\<close>

definition parentsAttached :: "tree \<Rightarrow> change \<Rightarrow> bool" where
  "parentsAttached t c \<longleftrightarrow> list_all (\<lambda>p. map_of (attached t) p \<noteq> None) (ch_PreviousIds c)"

fun drain :: "nat \<Rightarrow> tree \<Rightarrow> tree" where
  "drain 0 t = t"
| "drain (Suc n) t =
     (case filter (\<lambda>kc. parentsAttached t (snd kc)) (unAttached t) of
        [] \<Rightarrow> t
      | kc # rest \<Rightarrow>
          drain n (t\<lparr>attached := AList.update (fst kc) (snd kc) (attached t),
                     unAttached := AList.delete (fst kc) (unAttached t)\<rparr>))"

definition addOne :: "bool \<times> tree \<Rightarrow> change \<Rightarrow> bool \<times> tree" where
  "addOne acc c =
     (case acc of
        (any, t) \<Rightarrow>
          if parentsAttached t c then
            (True, drain (length (unAttached t))
                     (t\<lparr>attached := AList.update (ch_Id c) c (attached t)\<rparr>))
          else (any, t\<lparr>unAttached := AList.update (ch_Id c) c (unAttached t)\<rparr>))"

definition computeHeads :: "tree \<Rightarrow> string list" where
  "computeHeads t =
     filter (\<lambda>k. \<not> list_ex (\<lambda>kc. k \<in> set (ch_PreviousIds (snd kc))) (attached t))
       (map fst (attached t))"

text \<open>The ids reached from \<open>ids\<close> along at most \<open>n\<close> parent links, \<open>ids\<close> included.\<close>

fun ancestors :: "nat \<Rightarrow> tree \<Rightarrow> string list \<Rightarrow> string list" where
  "ancestors 0 t ids = ids"
| "ancestors (Suc n) t ids =
     ancestors n t
       (remdups (ids @ concat (map (\<lambda>i. case map_of (attached t) i of
                                            None \<Rightarrow> []
                                          | Some c \<Rightarrow> ch_PreviousIds c) ids)))"

definition parentsOf :: "tree \<Rightarrow> string list \<Rightarrow> string list" where
  "parentsOf t ids =
     concat (map (\<lambda>i. case map_of (attached t) i of
                         None \<Rightarrow> []
                       | Some c \<Rightarrow> ch_PreviousIds c) ids)"

definition spec_Tree_Add :: "tree \<Rightarrow> change list \<Rightarrow> Mode \<times> tree" where
  "spec_Tree_Add t changes =
     (case foldl addOne (False, t) changes of
        (any, t1) \<Rightarrow>
          if \<not> any then (Nothing, t1)
          else
            (let t2 = t1\<lparr>headIds := computeHeads t1\<rparr>;
                 new = filter (\<lambda>k. map_of (attached t) k = None) (map fst (attached t2));
                 earlier = ancestors (length (attached t2)) t2 (parentsOf t2 (headIds t))
             in (if list_ex (\<lambda>k. k \<in> set earlier) new then Rebuild else Append, t2)))"

text \<open>
  \<^verbatim>\<open>reduceTree\<close>: when every head descends from one snapshot other than the
  root, the root advances to it and its ancestors leave the attached partition.
\<close>

definition spec_reduceTree :: "tree \<Rightarrow> tree" where
  "spec_reduceTree t =
     (case filter (\<lambda>kc. ch_IsSnapshot (snd kc) \<and> fst kc \<noteq> rootId t \<and>
                     list_all (\<lambda>h. fst kc \<in> set (ancestors (length (attached t)) t [h]))
                       (headIds t))
             (attached t) of
        [] \<Rightarrow> t
      | kc # rest \<Rightarrow>
          (let old = ancestors (length (attached t)) t (parentsOf t [fst kc])
           in t\<lparr>rootId := fst kc,
                attached := filter (\<lambda>kc'. fst kc' \<notin> set old) (attached t)\<rparr>))"

text \<open>
  Modelled from the spec: \<^verbatim>\<open>AddMergedHead\<close>, the optimistic append of a locally
  authored change; it fails unless the parents of the change are the current heads,
  and sets the heads to the new change.
\<close>

definition spec_AddMergedHead :: "tree \<Rightarrow> change \<Rightarrow> error + tree" where
  "spec_AddMergedHead t c =
     (if ch_PreviousIds c \<noteq> headIds t then Inl (ErrFormatted ''not a merged head'')
      else Inr (t\<lparr>attached := AList.update (ch_Id c) c (attached t),
                  headIds := [ch_Id c],
                  rootId := (if attached t = [] then ch_Id c else rootId t)\<rparr>))"

subsection \<open>Storage\<close>

text \<open>
  Modelled from the spec: the storage contract of section 6, in memory.
  \<^verbatim>\<open>AddRawChange\<close> is append-only and idempotent by id, \<^verbatim>\<open>SetHeads\<close> replaces
  the heads; neither fails.
\<close>

record memStorage =
  ms_changes :: "rawChange list"
  ms_heads :: "string list"

definition mem_AddRawChange :: "memStorage \<Rightarrow> rawChange \<Rightarrow> error option \<times> memStorage" where
  "mem_AddRawChange s ch =
     (None, if rc_Id ch \<in> rc_Id ` set (ms_changes s) then s
            else s\<lparr>ms_changes := ms_changes s @ [ch]\<rparr>)"

definition mem_SetHeads :: "memStorage \<Rightarrow> string list \<Rightarrow> error option \<times> memStorage" where
  "mem_SetHeads s hs = (None, s\<lparr>ms_heads := hs\<rparr>)"

subsection \<open>Builder\<close>

text \<open>
  Modelled from the spec: \<^verbatim>\<open>treeBuilder.Build\<close> (the builder of \<^verbatim>\<open>docTree\<close> is
  not among the sources), after section 4.3, over the storage in memory. The
  changes are loaded from the ids of the extra changes and from the storage heads
  along the parent links, each id once, a snapshot ending its branch; the extra
  changes are found before the stored ones. A loaded change without parents is the
  root: none or several are refused. The tree is the root with the other loaded
  changes added to it. \<open>decode\<close> is the codec of the stored bytes.
\<close>

fun loadFrom ::
  "nat \<Rightarrow> (string \<Rightarrow> change option) \<Rightarrow> string list \<Rightarrow> change list \<Rightarrow> change list" where
  "loadFrom 0 look stack acc = acc"
| "loadFrom (Suc n) look [] acc = acc"
| "loadFrom (Suc n) look (k # stack) acc =
     (if k \<in> ch_Id ` set acc then loadFrom n look stack acc
      else
        (case look k of
           None \<Rightarrow> loadFrom n look stack acc
         | Some c \<Rightarrow>
             loadFrom n look
               ((if ch_IsSnapshot c then [] else ch_PreviousIds c) @ stack) (acc @ [c])))"

definition decodeAll :: "(rawChange \<Rightarrow> error + change) \<Rightarrow> rawChange list \<Rightarrow> change list" where
  "decodeAll decode raws =
     concat (map (\<lambda>raw. case decode raw of Inl e \<Rightarrow> [] | Inr c \<Rightarrow> [c]) raws)"

definition spec_Build ::
  "(rawChange \<Rightarrow> error + change) \<Rightarrow> memStorage \<Rightarrow> change list \<Rightarrow> error + tree" where
  "spec_Build decode s newChanges =
     (let table = newChanges @ decodeAll decode (ms_changes s);
          look = (\<lambda>k. find (\<lambda>c. ch_Id c = k) table);
          fuel = Suc (length table) * Suc (length table);
          loaded = loadFrom fuel look (map ch_Id newChanges @ ms_heads s) []
      in case filter (\<lambda>c. ch_PreviousIds c = []) loaded of
           [] \<Rightarrow> Inl (ErrFormatted ''cannot have tree without root'')
         | [root] \<Rightarrow>
             Inr (snd (spec_Tree_Add
                    \<lparr>attached = [(ch_Id root, root)], unAttached = [],
                     headIds = [ch_Id root], rootId = ch_Id root\<rparr>
                    (filter (\<lambda>c. ch_Id c \<noteq> ch_Id root) loaded)))
         | root # others \<Rightarrow> Inl (ErrFormatted ''multiple roots''))"

section \<open>Scenarios\<close>

text \<open>
  The scenarios S1 and S4 of the spec, section 8: a tree whose only change is the
  snapshot \<open>r\<close>, and the changes \<open>c1\<close> after \<open>r\<close> and \<open>c2\<close> after \<open>c1\<close>.
  Raw changes are decoded by table, as the codec is outside the repository. The
  builder is not reached in these scenarios (no change descends from an older
  snapshot) and is left failing. The zero value of \<^verbatim>\<open>Mode\<close> is taken to be
  \<open>Nothing\<close>, the first in the spec's list of modes.
\<close>

definition mkChange :: "string \<Rightarrow> string list \<Rightarrow> string \<Rightarrow> bool \<Rightarrow> change" where
  "mkChange cid prevs snap isSnap =
     NewChange cid
       \<lparr>TreeHeadIds = prevs, AclHeadId = ''acl'', SnapshotBaseId = snap,
        ac_CurrentReadKeyHash = 0, Timestamp = 0, ac_Identity = ''alice'',
        ac_IsSnapshot = isSnap, ChangesData = []\<rparr> []"

definition mkRaw :: "string \<Rightarrow> rawChange" where
  "mkRaw cid = \<lparr>rc_Payload = cid, rc_Signature = [], rc_Id = cid\<rparr>"

definition decodeByTable :: "rawChange \<Rightarrow> error + change" where
  "decodeByTable raw =
     (if rc_Id raw = ''r'' then Inr (mkChange ''r'' [] [] True)
      else if rc_Id raw = ''c1'' then Inr (mkChange ''c1'' [''r''] ''r'' False)
      else if rc_Id raw = ''c2'' then Inr (mkChange ''c2'' [''c1''] ''r'' False)
      else Inl ErrInvalidSignature)"

definition scenarioDeps :: "(tree \<Rightarrow> aclList \<Rightarrow> error option) \<Rightarrow> memStorage deps" where
  "scenarioDeps validator =
     \<lparr>NewVerifiedChangeFromRaw = decodeByTable,
      Tree_Add = spec_Tree_Add,
      AddMergedHead = spec_AddMergedHead,
      reduceTree = spec_reduceTree,
      clearPossibleRoots = (\<lambda>t. t),
      Build = (\<lambda>s cs. Inl (ErrExternal ''no build'')),
      ValidateTree = validator,
      storage_AddRawChange = mem_AddRawChange,
      storage_SetHeads = mem_SetHeads,
      zeroMode = Nothing,
      Encrypt = (\<lambda>k m. Inr m),
      Marshal = (\<lambda>c. Inr (ChangesData c)),
      NewCIDFromBytes = (\<lambda>b. Inr b)\<rparr>"

text \<open>The validator of the tests in \<^verbatim>\<open>doctree.go\<close>, which accepts every tree,
  and one that rejects every tree.\<close>

definition acceptAll :: "tree \<Rightarrow> aclList \<Rightarrow> error option" where
  "acceptAll t acl = None"

definition rejectAll :: "tree \<Rightarrow> aclList \<Rightarrow> error option" where
  "rejectAll t acl = Some ErrInsufficientPermissions"

definition rootTree :: tree where
  "rootTree =
     \<lparr>attached = [(''r'', mkChange ''r'' [] [] True)], unAttached = [],
      headIds = [''r''], rootId = ''r''\<rparr>"

definition rootDoc :: "bool \<Rightarrow> memStorage docTree" where
  "rootDoc listener =
     \<lparr>treeStorage = \<lparr>ms_changes = [mkRaw ''r''], ms_heads = [''r'']\<rparr>,
      updateListener = listener, tree = Some rootTree,
      storageCalls = [], listenerCalls = []\<rparr>"

text \<open>An ACL list whose state holds the read key \<open>k\<close> under the current hash
  \<open>7\<close>, with \<open>alice\<close> as its only user and Admin.\<close>

definition aliceState :: aclState where
  "aliceState =
     \<lparr>st_id = ''root'', currentReadKeyHash = 7, userReadKeys = [7 \<mapsto> ''k''],
      userStates = [''alice'' \<mapsto>
        \<lparr>us_Identity = ''alice'', us_EncryptionKey = ''ea'', us_Permissions = Admin\<rparr>],
      userInvites = Map.empty, encryptionKey = None, totalReadKeys = 1,
      st_identity = ''node''\<rparr>"

definition aliceAcl :: aclList where
  "aliceAcl = \<lparr>ACLState = aliceState, HeadId = ''acl''\<rparr>"

text \<open>
  Keys for the ACL scenarios: every byte string is a symmetric key and a public
  key, and a signature over \<open>msg\<close> under \<open>pk\<close> is valid when it is \<open>pk @ msg\<close>.
\<close>

definition testKeys :: keys where
  "testKeys =
     \<lparr>symFromBytes = (\<lambda>b. Some b), newPubKey = (\<lambda>b. True),
      verifySig = (\<lambda>pk msg sg. Some (sg = pk @ msg))\<rparr>"

text \<open>\<open>alice\<close> Admin and \<open>bob\<close> Reader.\<close>

definition aliceBobState :: aclState where
  "aliceBobState =
     aliceState\<lparr>userStates := (userStates aliceState)(''bob'' \<mapsto>
       \<lparr>us_Identity = ''bob'', us_EncryptionKey = ''eb'', us_Permissions = Reader\<rparr>)\<rparr>"

text \<open>\<open>alice\<close> Admin, and an open invite under the accept key \<open>inv\<close> that grants
  Reader.\<close>

definition inviteState :: aclState where
  "inviteState =
     aliceState\<lparr>userInvites := [''inv'' \<mapsto>
       \<lparr>inv_AcceptPublicKey = ''inv'', inv_EncryptedReadKeys = [],
        inv_Permissions = Reader\<rparr>]\<rparr>"

text \<open>A record that removes \<open>bob\<close> and carries no replacement read key.\<close>

definition removeBob :: aclData where
  "removeBob =
     \<lparr>AclContent = Some [UserRemove \<lparr>ur_Identity = ''bob'', ur_ReadKeyReplaces = []\<rparr>]\<rparr>"

text \<open>A record in which \<open>carol\<close> accepts the invite and then makes herself Admin.\<close>

definition joinAndPromote :: aclData where
  "joinAndPromote =
     \<lparr>AclContent = Some
        [UserJoin \<lparr>uj_Identity = ''carol'', uj_EncryptionKey = ''ec'',
                   uj_AcceptSignature = ''invcarol'', uj_AcceptPubKey = ''inv'',
                   uj_EncryptedReadKeys = []\<rparr>,
         UserPermissionChange \<lparr>pc_Identity = ''carol'', pc_Permissions = Admin\<rparr>]\<rparr>"

text \<open>A record that changes the permission of \<open>alice\<close> to Reader.\<close>

definition demoteAlice :: aclData where
  "demoteAlice =
     \<lparr>AclContent = Some
        [UserPermissionChange \<lparr>pc_Identity = ''alice'', pc_Permissions = Reader\<rparr>]\<rparr>"

text \<open>A record that adds \<open>dave\<close> as Writer.\<close>

definition addDave :: aclData where
  "addDave =
     \<lparr>AclContent = Some
        [UserAdd \<lparr>ua_Identity = ''dave'', ua_EncryptionKey = ''ed'',
                  ua_EncryptedReadKeys = [], ua_Permissions = Writer\<rparr>]\<rparr>"

text \<open>
  The batch of S1, and the document as the first call of S1 leaves it.
\<close>

definition s1Batch :: "rawChange list" where
  "s1Batch = [mkRaw ''c1'', mkRaw ''c2'']"

definition afterS1 :: "memStorage docTree" where
  "afterS1 = snd (AddRawChanges (scenarioDeps acceptAll) aliceAcl s1Batch (rootDoc True))"

text \<open>
  The scenario S4 with a validator that refuses: the document as the call leaves it.
\<close>

definition afterRejected :: "memStorage docTree" where
  "afterRejected =
     snd (AddRawChanges (scenarioDeps rejectAll) aliceAcl [mkRaw ''c1''] (rootDoc True))"

text \<open>A content to add, by \<open>alice\<close>; and an ACL list whose state has lost its
  read keys.\<close>

definition aliceContent :: signableChangeContent where
  "aliceContent =
     \<lparr>Proto_Marshal = Inr ''text'', Key_Sign = (\<lambda>m. Inr (''sig'' @ m)),
      sc_Identity = ''alice'', sc_IsSnapshot = False\<rparr>"

definition noKeyAcl :: aclList where
  "noKeyAcl = \<lparr>ACLState = aliceState\<lparr>userReadKeys := Map.empty\<rparr>, HeadId = ''acl''\<rparr>"

text \<open>
  The scenario S7: at most two spaces at a time and four cold spaces queued. The
  space service keeps the list of the spaces it has loaded, and fails to load the
  space \<open>b\<close>.
\<close>

definition listService :: "string list spaceService" where
  "listService =
     \<lparr>GetSpace = (\<lambda>c sid. if sid = ''b'' then (False, c) else (True, c @ [sid])),
      CacheIds = (\<lambda>c. c)\<rparr>"

definition coldSync :: "string list hotSync" where
  "coldSync =
     \<lparr>spaceQueue = [''a'', ''b'', ''c'', ''d''], syncQueue = {||}, simultaneousSync = 2,
      hit = Some 0, miss = Some 1, atomics = (\<lambda>a. 0), service = []\<rparr>"

text \<open>
  A peer manager with nothing loaded yet, the two nodes configured for its space,
  and three calls: long after the zero instant, one nanosecond later, and two
  minutes later.
\<close>

definition freshManager :: nodePeerManager where
  "freshManager = \<lparr>spaceId = ''s'', responsiblePeers = [], responsiblePeersUpdated = 0\<rparr>"

definition twoNodes :: "string list" where
  "twoNodes = [''n1'', ''n2'']"

definition threeCalls :: "(int \<times> int) list" where
  "threeCalls =
     [(1000 * minute, 1000 * minute), (1000 * minute + 1, 1000 * minute + 1),
      (1002 * minute, 1002 * minute)]"

text \<open>
  A batch as in the scenario S5: the change \<open>c1\<close> after the root \<open>r\<close> and the
  snapshot \<open>s2\<close> after \<open>c1\<close>. Two sets of collaborators for it: one whose builder
  is the builder of the spec, one whose builder fails (the storage cannot be read).
  The documents are those the successive calls with this batch leave.
\<close>

definition decodeS5 :: "rawChange \<Rightarrow> error + change" where
  "decodeS5 raw =
     (if rc_Id raw = ''r'' then Inr (mkChange ''r'' [] [] True)
      else if rc_Id raw = ''c1'' then Inr (mkChange ''c1'' [''r''] ''r'' False)
      else if rc_Id raw = ''s2'' then Inr (mkChange ''s2'' [''c1''] ''r'' True)
      else Inl ErrInvalidSignature)"

definition s5Batch :: "rawChange list" where
  "s5Batch = [mkRaw ''c1'', mkRaw ''s2'']"

definition rebuildingDeps :: "memStorage deps" where
  "rebuildingDeps =
     (scenarioDeps acceptAll)
       \<lparr>NewVerifiedChangeFromRaw := decodeS5, Build := spec_Build decodeS5\<rparr>"

definition brokenDeps :: "memStorage deps" where
  "brokenDeps = (scenarioDeps acceptAll)\<lparr>NewVerifiedChangeFromRaw := decodeS5\<rparr>"

definition afterS5 :: "memStorage docTree" where
  "afterS5 = snd (AddRawChanges rebuildingDeps aliceAcl s5Batch (rootDoc True))"

definition afterS5twice :: "memStorage docTree" where
  "afterS5twice = snd (AddRawChanges rebuildingDeps aliceAcl s5Batch afterS5)"

definition afterS5broken :: "memStorage docTree" where
  "afterS5broken = snd (AddRawChanges brokenDeps aliceAcl s5Batch afterS5)"

text \<open>
  A codec that does not keep the id: the raw change \<open>x\<close> decodes to the change
  \<open>c1\<close>. The document is the one a call with the batch of \<open>x\<close> alone leaves.
\<close>

definition decodeRenamed :: "rawChange \<Rightarrow> error + change" where
  "decodeRenamed raw =
     (if rc_Id raw = ''x'' then Inr (mkChange ''c1'' [''r''] ''r'' False)
      else decodeByTable raw)"

definition renamingDeps :: "memStorage deps" where
  "renamingDeps = (scenarioDeps acceptAll)\<lparr>NewVerifiedChangeFromRaw := decodeRenamed\<rparr>"

definition afterRenamed :: "memStorage docTree" where
  "afterRenamed = snd (AddRawChanges renamingDeps aliceAcl [mkRaw ''x''] (rootDoc True))"

text \<open>
  The hot sync of S7 with a negative limit in its configuration (\<^verbatim>\<open>Init\<close>
  replaces only a limit of zero), with the miss counter never wired, and with the
  hit counter never wired.
\<close>

definition negativeSync :: "string list hotSync" where
  "negativeSync = coldSync\<lparr>simultaneousSync := - 1\<rparr>"

definition noMissSync :: "string list hotSync" where
  "noMissSync = coldSync\<lparr>miss := None\<rparr>"

definition noHitSync :: "string list hotSync" where
  "noHitSync = coldSync\<lparr>hit := None\<rparr>"

section \<open>Properties of the ACL state\<close>

subsection \<open>What the content items leave alone\<close>

lemma saveReadKeys_fields:
  "saveReadKeys K ks st = (r, st') \<Longrightarrow>
     currentReadKeyHash st' = currentReadKeyHash st \<and> totalReadKeys st' = totalReadKeys st \<and>
     userStates st' = userStates st \<and> userInvites st' = userInvites st"
proof (induction ks arbitrary: st)
  case Nil
  then show ?case by simp
next
  case (Cons k ks)
  show ?case
  proof (cases "decryptReadKeyAndHash K st k")
    case (Ok kh)
    obtain key h where kh: "kh = (key, h)" by (cases kh)
    from Cons.prems Ok kh
    have "saveReadKeys K ks (st\<lparr>userReadKeys := (userReadKeys st)(h \<mapsto> key)\<rparr>) = (r, st')"
      by simp
    from Cons.IH [OF this] show ?thesis by simp
  next
    case (Err e)
    with Cons.prems show ?thesis by simp
  next
    case Panic
    with Cons.prems show ?thesis by simp
  qed
qed

lemma replaceReadKey_fields:
  "replaceReadKey K reps st = (r, st') \<Longrightarrow>
     currentReadKeyHash st' = currentReadKeyHash st \<and> totalReadKeys st' = totalReadKeys st \<and>
     userStates st' = userStates st \<and> userInvites st' = userInvites st"
proof (induction reps arbitrary: st)
  case Nil
  then show ?case by simp
next
  case (Cons rep reps)
  then show ?case
    by (cases "decryptReadKeyAndHash K st (rk_EncryptedReadKey rep)")
       (auto split: if_splits)
qed

lemma applyChangeContent_fields:
  assumes "applyChangeContent K ch st = (r, st')"
  shows "currentReadKeyHash st' = currentReadKeyHash st \<and> totalReadKeys st' = totalReadKeys st"
proof (cases ch)
  case (UserAdd a)
  with assms show ?thesis
    by (auto simp: applyUserAdd_def Let_def split: if_splits dest!: saveReadKeys_fields)
next
  case (UserRemove a)
  with assms show ?thesis
    by (auto simp: applyUserRemove_def split: if_splits dest!: replaceReadKey_fields)
next
  case (UserInvite a)
  with assms show ?thesis
    by (auto simp: applyUserInvite_def)
next
  case (UserJoin a)
  with assms show ?thesis
    by (auto simp: applyUserJoin_def
             split: option.splits if_splits prod.splits result.splits
             dest!: saveReadKeys_fields)
next
  case (UserPermissionChange a)
  with assms show ?thesis
    by (auto simp: applyUserPermissionChange_def split: option.splits)
next
  case NoContent
  with assms show ?thesis by auto
qed

lemma applyContents_fields:
  "applyContents K chs st = (r, st') \<Longrightarrow>
     currentReadKeyHash st' = currentReadKeyHash st \<and> totalReadKeys st' = totalReadKeys st"
proof (induction chs arbitrary: st)
  case Nil
  then show ?case by simp
next
  case (Cons ch chs)
  obtain r1 st1 where step: "applyChangeContent K ch st = (r1, st1)"
    by (cases "applyChangeContent K ch st")
  note keep = applyChangeContent_fields [OF step]
  show ?case
  proof (cases r1)
    case (Ok u)
    with Cons.prems step have "applyContents K chs st1 = (r, st')" by simp
    from Cons.IH [OF this] keep show ?thesis by simp
  next
    case (Err e)
    with Cons.prems step keep show ?thesis by simp
  next
    case Panic
    with Cons.prems step keep show ?thesis by simp
  qed
qed

lemma applyChangeData_body_fields:
  assumes "applyChangeData_body K changeData identity st = (r, st')"
  shows "currentReadKeyHash st' = currentReadKeyHash st \<and> totalReadKeys st' = totalReadKeys st"
proof (cases "isUserJoin changeData")
  case (Ok join)
  show ?thesis
  proof (cases "applyContents K (GetAclContent changeData) st = (r, st')")
    case True
    then show ?thesis by (rule applyContents_fields)
  next
    case False
    with assms Ok have "st' = st"
      unfolding applyChangeData_body_def by (auto split: if_splits)
    then show ?thesis by simp
  qed
next
  case (Err e)
  with assms show ?thesis by (simp add: applyChangeData_body_def)
next
  case Panic
  with assms show ?thesis by (simp add: applyChangeData_body_def)
qed

lemma applyChangeData_split:
  assumes "applyChangeData K changeData hash identity st = (r, st')"
  obtains st1 where "applyChangeData_body K changeData identity st = (r, st1)"
    and "st' = rotateReadKey hash r st1"
  using assms unfolding applyChangeData_def
  by (cases "applyChangeData_body K changeData identity st") auto

subsection \<open>Read-key rotation\<close>

text \<open>
  C10. A record that is applied without error and carries a read-key hash other
  than the current one sets the current hash to the record's and adds one to the
  number of read keys, whatever its content items are; a record whose application
  returns an error changes neither field.
\<close>

theorem applyChangeData_rotation:
  assumes "applyChangeData K changeData hash identity st = (r, st')"
  shows "(r = Ok () \<and> hash \<noteq> currentReadKeyHash st \<longrightarrow>
            currentReadKeyHash st' = hash \<and> totalReadKeys st' = totalReadKeys st + 1) \<and>
         (isErr r \<longrightarrow>
            currentReadKeyHash st' = currentReadKeyHash st \<and>
            totalReadKeys st' = totalReadKeys st)"
proof -
  from assms obtain st1
    where body: "applyChangeData_body K changeData identity st = (r, st1)"
      and st': "st' = rotateReadKey hash r st1"
    by (rule applyChangeData_split)
  from applyChangeData_body_fields [OF body]
  have keep: "currentReadKeyHash st1 = currentReadKeyHash st"
             "totalReadKeys st1 = totalReadKeys st"
    by simp_all
  show ?thesis
    using keep st' by (cases r) (simp_all add: rotateReadKey_def)
qed

theorem applyChangeData_rotation_witness:
  "fst (applyChangeData testKeys addDave 9 ''alice'' aliceBobState) = Ok () \<and>
   9 \<noteq> currentReadKeyHash aliceBobState \<and>
   currentReadKeyHash (snd (applyChangeData testKeys addDave 9 ''alice'' aliceBobState)) = 9 \<and>
   totalReadKeys (snd (applyChangeData testKeys addDave 9 ''alice'' aliceBobState)) =
     totalReadKeys aliceBobState + 1 \<and>
   isErr (fst (applyChangeData testKeys addDave 9 ''bob'' aliceBobState)) \<and>
   currentReadKeyHash (snd (applyChangeData testKeys addDave 9 ''bob'' aliceBobState)) =
     currentReadKeyHash aliceBobState \<and>
   totalReadKeys (snd (applyChangeData testKeys addDave 9 ''bob'' aliceBobState)) =
     totalReadKeys aliceBobState"
proof -
  have ok: "fst (applyChangeData testKeys addDave 9 ''alice'' aliceBobState) = Ok ()"
    by (simp add: applyChangeData_def applyChangeData_body_def isUserJoin_def addDave_def
          aliceBobState_def aliceState_def hasPermission_def applyUserAdd_def)
  have ne: "9 \<noteq> currentReadKeyHash aliceBobState"
    by (simp add: aliceBobState_def aliceState_def)
  have bad: "isErr (fst (applyChangeData testKeys addDave 9 ''bob'' aliceBobState))"
    by (simp add: applyChangeData_def applyChangeData_body_def isUserJoin_def addDave_def
          aliceBobState_def aliceState_def hasPermission_def)
  from applyChangeData_rotation
         [OF prod.collapse [symmetric], of testKeys addDave 9 "''alice''" aliceBobState]
       applyChangeData_rotation
         [OF prod.collapse [symmetric], of testKeys addDave 9 "''bob''" aliceBobState]
       ok ne bad
  show ?thesis by simp
qed

subsection \<open>Removing a user\<close>

text \<open>
  C4, as the code has it. A record whose single item is a UserRemove and that is
  applied without error deletes the removed identity from the user states and
  leaves the other users as they were; the current read-key hash becomes the hash
  the record carries, and the number of read keys grows by one exactly when that
  hash differs from the former one. Neither a new hash nor a replacement key for
  the remaining users is required.
\<close>

theorem applyUserRemove_record:
  assumes "applyChangeData K \<lparr>AclContent = Some [UserRemove ch]\<rparr> hash identity st = (Ok (), st')"
  shows "userStates st' = (userStates st)(ur_Identity ch := None) \<and>
         currentReadKeyHash st' = hash \<and>
         totalReadKeys st' =
           (if hash = currentReadKeyHash st then totalReadKeys st else totalReadKeys st + 1)"
proof -
  from assms obtain st1
    where body: "applyChangeData_body K \<lparr>AclContent = Some [UserRemove ch]\<rparr> identity st
                 = (Ok (), st1)"
      and st': "st' = rotateReadKey hash (Ok ()) st1"
    by (rule applyChangeData_split)
  from applyChangeData_body_fields [OF body]
  have keep: "currentReadKeyHash st1 = currentReadKeyHash st"
             "totalReadKeys st1 = totalReadKeys st"
    by simp_all
  from body have rem: "applyUserRemove K ch st = (Ok (), st1)"
    by (auto simp: applyChangeData_body_def isUserJoin_def
             split: if_splits prod.splits result.splits)
  then have "replaceReadKey K (ur_ReadKeyReplaces ch)
               (st\<lparr>userStates := (userStates st)(ur_Identity ch := None)\<rparr>) = (Ok (), st1)"
    by (auto simp: applyUserRemove_def split: if_splits)
  from replaceReadKey_fields [OF this]
  have users: "userStates st1 = (userStates st)(ur_Identity ch := None)"
    by simp
  show ?thesis
    using keep users st' by (simp add: rotateReadKey_def)
qed

theorem applyUserRemove_record_witness:
  "applyChangeData testKeys
     \<lparr>AclContent = Some [UserRemove \<lparr>ur_Identity = ''bob'', ur_ReadKeyReplaces = []\<rparr>]\<rparr>
     9 ''alice'' aliceBobState
   = (Ok (), snd (applyChangeData testKeys removeBob 9 ''alice'' aliceBobState)) \<and>
   userStates (snd (applyChangeData testKeys removeBob 9 ''alice'' aliceBobState)) ''bob'' = None \<and>
   currentReadKeyHash (snd (applyChangeData testKeys removeBob 9 ''alice'' aliceBobState)) = 9 \<and>
   totalReadKeys (snd (applyChangeData testKeys removeBob 9 ''alice'' aliceBobState)) = 2"
proof -
  have run: "applyChangeData testKeys
     \<lparr>AclContent = Some [UserRemove \<lparr>ur_Identity = ''bob'', ur_ReadKeyReplaces = []\<rparr>]\<rparr>
     9 ''alice'' aliceBobState
   = (Ok (), snd (applyChangeData testKeys removeBob 9 ''alice'' aliceBobState))"
    by (simp add: applyChangeData_def applyChangeData_body_def isUserJoin_def removeBob_def
          aliceBobState_def aliceState_def hasPermission_def applyUserRemove_def)
  have start: "currentReadKeyHash aliceBobState = 7" "totalReadKeys aliceBobState = 1"
    by (simp_all add: aliceBobState_def aliceState_def)
  from applyUserRemove_record [OF run] run start show ?thesis by simp
qed

text \<open>
  The claim as the spec words it fails: \<open>alice\<close> removes \<open>bob\<close> with a record that
  carries the current hash and no replacement key. The record is applied, \<open>alice\<close>
  remains, and neither the hash nor the number of read keys moves.
\<close>

theorem userRemove_without_rotation:
  "fst (applyChangeData testKeys removeBob 7 ''alice'' aliceBobState) = Ok () \<and>
   userStates (snd (applyChangeData testKeys removeBob 7 ''alice'' aliceBobState)) ''bob'' = None \<and>
   userStates (snd (applyChangeData testKeys removeBob 7 ''alice'' aliceBobState)) ''alice''
     = userStates aliceBobState ''alice'' \<and>
   userStates aliceBobState ''alice'' \<noteq> None \<and>
   currentReadKeyHash (snd (applyChangeData testKeys removeBob 7 ''alice'' aliceBobState))
     = currentReadKeyHash aliceBobState \<and>
   totalReadKeys (snd (applyChangeData testKeys removeBob 7 ''alice'' aliceBobState))
     = totalReadKeys aliceBobState \<and>
   GetAclContent removeBob = [UserRemove \<lparr>ur_Identity = ''bob'', ur_ReadKeyReplaces = []\<rparr>]"
  by (simp add: applyChangeData_def applyChangeData_body_def isUserJoin_def removeBob_def
        aliceBobState_def aliceState_def hasPermission_def applyUserRemove_def
        rotateReadKey_def)

subsection \<open>Who may apply content\<close>

text \<open>
  C5, as the code has it. When the first item of a record is not a UserJoin, the
  record is applied only if its author is among the user states with Admin
  permission: otherwise the call returns an error and the state is as before.
\<close>

theorem applyChangeData_needs_admin:
  assumes "isUserJoin changeData = Ok False"
    and "\<not> hasPermission st identity Admin"
  shows "\<exists>e. applyChangeData K changeData hash identity st = (Err e, st)"
  using assms
  by (auto simp: applyChangeData_def applyChangeData_body_def rotateReadKey_def
        hasPermission_def split: option.splits)

theorem applyChangeData_needs_admin_witness:
  "isUserJoin addDave = Ok False \<and> \<not> hasPermission aliceBobState ''bob'' Admin \<and>
   (\<exists>e. applyChangeData testKeys addDave 9 ''bob'' aliceBobState = (Err e, aliceBobState))"
proof -
  have a: "isUserJoin addDave = Ok False"
    by (simp add: isUserJoin_def addDave_def)
  have b: "\<not> hasPermission aliceBobState ''bob'' Admin"
    by (simp add: hasPermission_def aliceBobState_def aliceState_def)
  from applyChangeData_needs_admin [OF a b] a b show ?thesis by simp
qed

text \<open>
  The claim as the spec words it fails: \<open>carol\<close>, who is not among the users, sends
  a record that accepts an invite granting Reader and then changes her own
  permission. The first item makes her Reader; the second, which is not a UserJoin,
  is applied all the same, and \<open>carol\<close> is Admin.
\<close>

theorem join_then_promote_applies:
  "userStates inviteState ''carol'' = None \<and>
   \<not> hasPermission inviteState ''carol'' Admin \<and>
   length (GetAclContent joinAndPromote) = 2 \<and>
   GetAclContent joinAndPromote ! 1 =
     UserPermissionChange \<lparr>pc_Identity = ''carol'', pc_Permissions = Admin\<rparr> \<and>
   hasPermission
     (snd (applyChangeContent testKeys (GetAclContent joinAndPromote ! 0) inviteState))
     ''carol'' Reader \<and>
   fst (applyChangeData testKeys joinAndPromote 7 ''carol'' inviteState) = Ok () \<and>
   hasPermission (snd (applyChangeData testKeys joinAndPromote 7 ''carol'' inviteState))
     ''carol'' Admin"
  by (simp add: applyChangeData_def applyChangeData_body_def isUserJoin_def
        joinAndPromote_def inviteState_def aliceState_def hasPermission_def
        applyUserJoin_def applyUserPermissionChange_def testKeys_def rotateReadKey_def)

subsection \<open>Changing a permission\<close>

text \<open>
  C6, as the code has it. A record by an Admin \<open>a\<close> whose single item changes the
  permission of \<open>a\<close> itself is applied without error and gives \<open>a\<close> the requested
  permission, also when \<open>a\<close> is the only Admin: if the requested permission is not
  Admin, no identity holds Admin afterwards.
\<close>

theorem sole_admin_demotion_applies:
  assumes "userStates st a = Some s"
    and "us_Permissions s = Admin"
    and "\<forall>b sb. userStates st b = Some sb \<and> us_Permissions sb = Admin \<longrightarrow> b = a"
    and "applyChangeData K
           \<lparr>AclContent = Some [UserPermissionChange \<lparr>pc_Identity = a, pc_Permissions = p\<rparr>]\<rparr>
           hash a st = (r, st')"
  shows "r = Ok () \<and> userStates st' a = Some (s\<lparr>us_Permissions := p\<rparr>) \<and>
         (\<forall>b. b \<noteq> a \<longrightarrow> userStates st' b = userStates st b) \<and>
         (p \<noteq> Admin \<longrightarrow> (\<forall>b. \<not> hasPermission st' b Admin))"
proof -
  let ?st1 = "st\<lparr>userStates := (userStates st)(a \<mapsto> s\<lparr>us_Permissions := p\<rparr>)\<rparr>"
  from assms(1,2) have adm: "hasPermission st a Admin"
    by (simp add: hasPermission_def)
  from assms(1) adm
  have body: "applyChangeData_body K
           \<lparr>AclContent = Some [UserPermissionChange \<lparr>pc_Identity = a, pc_Permissions = p\<rparr>]\<rparr>
           a st = (Ok (), ?st1)"
    by (simp add: applyChangeData_body_def isUserJoin_def applyUserPermissionChange_def)
  with assms(4) have r: "r = Ok ()" and st': "st' = rotateReadKey hash (Ok ()) ?st1"
    by (auto simp: applyChangeData_def)
  from st' have users: "userStates st' = (userStates st)(a \<mapsto> s\<lparr>us_Permissions := p\<rparr>)"
    by (simp add: rotateReadKey_def)
  have none: "\<not> hasPermission st' b Admin" if "p \<noteq> Admin" for b
  proof (cases "b = a")
    case True
    with users that show ?thesis by (simp add: hasPermission_def)
  next
    case False
    with users assms(3) show ?thesis
      by (auto simp: hasPermission_def split: option.splits)
  qed
  from r users none show ?thesis by simp
qed

theorem sole_admin_demotion_applies_witness:
  "userStates aliceState ''alice'' =
     Some \<lparr>us_Identity = ''alice'', us_EncryptionKey = ''ea'', us_Permissions = Admin\<rparr> \<and>
   fst (applyChangeData testKeys demoteAlice 7 ''alice'' aliceState) = Ok () \<and>
   userStates (snd (applyChangeData testKeys demoteAlice 7 ''alice'' aliceState)) ''alice'' =
     Some \<lparr>us_Identity = ''alice'', us_EncryptionKey = ''ea'', us_Permissions = Reader\<rparr> \<and>
   \<not> hasPermission (snd (applyChangeData testKeys demoteAlice 7 ''alice'' aliceState))
       ''alice'' Admin"
proof -
  have u: "userStates aliceState ''alice'' =
     Some \<lparr>us_Identity = ''alice'', us_EncryptionKey = ''ea'', us_Permissions = Admin\<rparr>"
    by (simp add: aliceState_def)
  have sole: "\<forall>b sb. userStates aliceState b = Some sb \<and> us_Permissions sb = Admin
                \<longrightarrow> b = ''alice''"
    by (simp add: aliceState_def)
  have run: "applyChangeData testKeys
       \<lparr>AclContent = Some
          [UserPermissionChange \<lparr>pc_Identity = ''alice'', pc_Permissions = Reader\<rparr>]\<rparr>
       7 ''alice'' aliceState
     = (fst (applyChangeData testKeys demoteAlice 7 ''alice'' aliceState),
        snd (applyChangeData testKeys demoteAlice 7 ''alice'' aliceState))"
    by (simp add: demoteAlice_def)
  from sole_admin_demotion_applies [OF u _ sole run] u show ?thesis by simp
qed

text \<open>
  The claim as the spec words it fails: \<open>alice\<close> is the only Admin, and the record
  that makes her Reader is applied; the user states change.
\<close>

theorem sole_admin_demoted:
  "hasPermission aliceState ''alice'' Admin \<and>
   dom (userStates aliceState) = {''alice''} \<and>
   fst (applyChangeData testKeys demoteAlice 7 ''alice'' aliceState) = Ok () \<and>
   userStates (snd (applyChangeData testKeys demoteAlice 7 ''alice'' aliceState)) ''alice''
     \<noteq> userStates aliceState ''alice'' \<and>
   hasPermission (snd (applyChangeData testKeys demoteAlice 7 ''alice'' aliceState))
     ''alice'' Reader"
  by (simp add: applyChangeData_def applyChangeData_body_def isUserJoin_def demoteAlice_def
        aliceState_def hasPermission_def applyUserPermissionChange_def rotateReadKey_def)

section \<open>Properties of the hot sync\<close>

lemma sint_budget:
  fixes s :: "64 word"
  assumes "int k \<le> sint s"
  shows "sint (s - of_nat k) = sint s - int k"
proof -
  have hi: "sint s < 2 ^ 63" using sint_lt [of s] by simp
  with assms have k: "int k < 2 ^ 63" by simp
  have "sint (of_nat k :: 64 word) = signed_take_bit 63 (int k)"
    by (simp add: signed_of_nat)
  also have "\<dots> = int k"
    using k by (simp add: signed_take_bit_int_eq_self)
  finally have ofk: "sint (of_nat k :: 64 word) = int k" .
  have "sint (s - of_nat k) = signed_take_bit 63 (sint s - sint (of_nat k :: 64 word))"
    by (simp add: sint_word_ariths)
  also have "\<dots> = signed_take_bit 63 (sint s - int k)"
    by (simp add: ofk)
  also have "\<dots> = sint s - int k"
    using assms hi by (simp add: signed_take_bit_int_eq_self)
  finally show ?thesis .
qed

lemma checkRemoved_fields:
  assumes "checkRemoved S h = (removed, h1)"
  shows "spaceQueue h1 = spaceQueue h \<and> simultaneousSync h1 = simultaneousSync h \<and>
         hit h1 = hit h \<and> miss h1 = miss h \<and> atomics h1 = atomics h \<and>
         service h1 = service h \<and>
         syncQueue h1 = ffilter (\<lambda>sid. sid \<in> set (CacheIds S (service h))) (syncQueue h)"
  using assms by (auto simp: checkRemoved_def Let_def fset_of_list_elem)

text \<open>
  The loop, once the two counters are wired: it ends without error, and its effect
  is the one of the loads in order.
\<close>

lemma warm_loads:
  assumes "hit h = Some hitp" and "miss h = Some missp"
  shows "warm S ids h =
           (Ok (), h\<lparr>service := served S (service h) ids,
                     atomics := foldl (count1 hitp missp) (atomics h) (loads S (service h) ids),
                     syncQueue := syncQueue h |\<union>|
                        fset_of_list (map fst (filter snd (loads S (service h) ids)))\<rparr>)"
  using assms
proof (induction ids arbitrary: h)
  case Nil
  then show ?case by simp
next
  case (Cons sid ids)
  obtain ok c where g: "GetSpace S (service h) sid = (ok, c)"
    by (cases "GetSpace S (service h) sid")
  show ?case
  proof (cases ok)
    case True
    let ?h1 = "h\<lparr>service := c, atomics := (atomics h)(missp := atomics h missp + 1),
                  syncQueue := finsert sid (syncQueue h)\<rparr>"
    have wired: "hit ?h1 = Some hitp" "miss ?h1 = Some missp"
      using Cons.prems by simp_all
    have step: "warm S (sid # ids) h = warm S ids ?h1"
      using g True Cons.prems by (simp add: atomicAdd1_def)
    have one: "count1 hitp missp (atomics h) (sid, True) =
                 (atomics h)(missp := atomics h missp + 1)"
      by (simp add: count1_def)
    have ls: "loads S (service h) (sid # ids) = (sid, True) # loads S c ids"
      using g True by simp
    have sv: "served S (service h) (sid # ids) = served S c ids"
      using g by simp
    show ?thesis
      unfolding step Cons.IH [OF wired] ls sv by (simp add: one)
  next
    case False
    let ?h1 = "h\<lparr>service := c, atomics := (atomics h)(hitp := atomics h hitp + 1)\<rparr>"
    have wired: "hit ?h1 = Some hitp" "miss ?h1 = Some missp"
      using Cons.prems by simp_all
    have step: "warm S (sid # ids) h = warm S ids ?h1"
      using g False Cons.prems by (simp add: atomicAdd1_def)
    have one: "count1 hitp missp (atomics h) (sid, False) =
                 (atomics h)(hitp := atomics h hitp + 1)"
      by (simp add: count1_def)
    have ls: "loads S (service h) (sid # ids) = (sid, False) # loads S c ids"
      using g False by simp
    have sv: "served S (service h) (sid # ids) = served S c ids"
      using g by simp
    show ?thesis
      unfolding step Cons.IH [OF wired] ls sv by (simp add: one)
  qed
qed

lemma loads_ids: "map fst (loads S c ids) = ids"
  by (induction ids arbitrary: c) (auto split: prod.splits)

text \<open>
  A tick whose budget is not negative is the loop over the first \<open>n\<close> ids of the
  queue, run on the pruned state with those ids taken off.
\<close>

lemma checkCache_as_warm:
  assumes "checkRemoved S h = (removed, h1)"
    and "int (fcard (syncQueue h1)) \<le> sint (simultaneousSync h)"
    and "n = nat (min (sint (simultaneousSync h) - int (fcard (syncQueue h1)))
                      (int (length (spaceQueue h))))"
  shows "checkCache S h =
           warm S (take n (spaceQueue h)) (h1\<lparr>spaceQueue := drop n (spaceQueue h)\<rparr>)"
proof -
  note f = checkRemoved_fields [OF assms(1)]
  from assms(2) f have le: "int (fcard (syncQueue h1)) \<le> sint (simultaneousSync h1)"
    by simp
  have "batchLen h1 =
          go_min (sint (simultaneousSync h1) - int (fcard (syncQueue h1)))
                 (int (length (spaceQueue h1)))"
    unfolding batchLen_def Let_def sint_budget [OF le] ..
  also have "\<dots> = min (sint (simultaneousSync h) - int (fcard (syncQueue h1)))
                       (int (length (spaceQueue h)))"
    using f by (simp add: go_min_def min_def)
  finally have bl: "batchLen h1 =
              min (sint (simultaneousSync h) - int (fcard (syncQueue h1)))
                  (int (length (spaceQueue h)))" .
  with assms(2) have nonneg: "\<not> batchLen h1 < 0" by simp
  from bl assms(3) have n: "nat (batchLen h1) = n" by simp
  show ?thesis
    using assms(1) nonneg n f by (simp add: checkCache_def Let_def)
qed

text \<open>
  C7, as the code has it. One tick, with the counters wired and the set of active spaces, once the
  evicted ones are pruned, within the limit. The number \<open>n\<close> of ids taken is the
  smaller of the free budget and the queue length; the queue loses its first \<open>n\<close>
  ids; a load is attempted for exactly those ids, in order; every failed load adds
  one to the hit counter and leaves the active set alone, every successful load
  adds one to the miss counter and puts the id into the active set.
\<close>

theorem checkCache_tick:
  assumes "hit h = Some hitp" and "miss h = Some missp"
    and "checkRemoved S h = (removed, h1)"
    and "int (fcard (syncQueue h1)) \<le> sint (simultaneousSync h)"
    and "n = nat (min (sint (simultaneousSync h) - int (fcard (syncQueue h1)))
                      (int (length (spaceQueue h))))"
    and "ls = loads S (service h) (take n (spaceQueue h))"
  shows "fst (checkCache S h) = Ok () \<and>
         spaceQueue (snd (checkCache S h)) = drop n (spaceQueue h) \<and>
         map fst ls = take n (spaceQueue h) \<and>
         syncQueue (snd (checkCache S h)) =
           syncQueue h1 |\<union>| fset_of_list (map fst (filter snd ls)) \<and>
         atomics (snd (checkCache S h)) = foldl (count1 hitp missp) (atomics h) ls"
proof -
  note f = checkRemoved_fields [OF assms(3)]
  let ?h2 = "h1\<lparr>spaceQueue := drop n (spaceQueue h)\<rparr>"
  have w: "hit ?h2 = Some hitp" "miss ?h2 = Some missp"
    using f assms(1,2) by simp_all
  show ?thesis
    unfolding checkCache_as_warm [OF assms(3,4,5)] warm_loads [OF w]
    using f assms(6) by (simp add: loads_ids)
qed

text \<open>
  The limit is kept: after such a tick the active set is again within it, so the
  budget of the next tick is not negative either.
\<close>

lemma checkCache_within_limit:
  assumes "hit h = Some hitp" and "miss h = Some missp"
    and "checkRemoved S h = (removed, h1)"
    and "int (fcard (syncQueue h1)) \<le> sint (simultaneousSync h)"
  shows "int (fcard (syncQueue (snd (checkCache S h)))) \<le> sint (simultaneousSync h) \<and>
         simultaneousSync (snd (checkCache S h)) = simultaneousSync h"
proof -
  define n where "n = nat (min (sint (simultaneousSync h) - int (fcard (syncQueue h1)))
                               (int (length (spaceQueue h))))"
  define ls where "ls = loads S (service h) (take n (spaceQueue h))"
  note f = checkRemoved_fields [OF assms(3)]
  let ?h2 = "h1\<lparr>spaceQueue := drop n (spaceQueue h)\<rparr>"
  have w: "hit ?h2 = Some hitp" "miss ?h2 = Some missp"
    using f assms(1,2) by simp_all
  have res: "syncQueue (snd (checkCache S h)) =
               syncQueue h1 |\<union>| fset_of_list (map fst (filter snd ls))"
    and sim: "simultaneousSync (snd (checkCache S h)) = simultaneousSync h"
    unfolding checkCache_as_warm [OF assms(3,4) n_def] warm_loads [OF w]
    using f by (simp_all add: ls_def)
  have "length ls = length (take n (spaceQueue h))"
    using loads_ids [of S "service h" "take n (spaceQueue h)"]
    unfolding ls_def by (metis length_map)
  then have len: "length (filter snd ls) \<le> n"
    using length_filter_le [of snd ls] by simp
  have "card (set (map fst (filter snd ls))) \<le> length (map fst (filter snd ls))"
    by (rule card_length)
  then have "fcard (fset_of_list (map fst (filter snd ls))) \<le> length (filter snd ls)"
    by (simp only: fcard.rep_eq fset_of_list.rep_eq length_map)
  with len have new: "fcard (fset_of_list (map fst (filter snd ls))) \<le> n" by simp
  have "fcard (syncQueue h1 |\<union>| fset_of_list (map fst (filter snd ls)))
          \<le> fcard (syncQueue h1) + fcard (fset_of_list (map fst (filter snd ls)))"
    by (simp add: fcard.rep_eq card_Un_le)
  with new have "fcard (syncQueue (snd (checkCache S h))) \<le> fcard (syncQueue h1) + n"
    unfolding res by simp
  moreover have "int n \<le> sint (simultaneousSync h) - int (fcard (syncQueue h1))"
    using assms(4) unfolding n_def by simp
  ultimately show ?thesis using sim by simp
qed

theorem checkCache_tick_witness:
  "fst (checkCache listService coldSync) = Ok () \<and>
   spaceQueue (snd (checkCache listService coldSync)) = [''c'', ''d''] \<and>
   loads listService [] [''a'', ''b''] = [(''a'', True), (''b'', False)] \<and>
   syncQueue (snd (checkCache listService coldSync)) = {|''a''|} \<and>
   atomics (snd (checkCache listService coldSync)) 0 = 1 \<and>
   atomics (snd (checkCache listService coldSync)) 1 = 1"
proof -
  have r: "checkRemoved listService coldSync = (0, coldSync)"
    by (auto simp: checkRemoved_def coldSync_def listService_def)
  have fields: "hit coldSync = Some 0" "miss coldSync = Some 1"
    "syncQueue coldSync = {||}" "simultaneousSync coldSync = 2"
    "spaceQueue coldSync = [''a'', ''b'', ''c'', ''d'']" "service coldSync = []"
    "atomics coldSync = (\<lambda>a. 0)"
    by (simp_all add: coldSync_def)
  have budget: "int (fcard (syncQueue coldSync)) \<le> sint (simultaneousSync coldSync)"
    by (simp add: fields fcard_fempty)
  have n: "(2::nat) = nat (min (sint (simultaneousSync coldSync) -
                                  int (fcard (syncQueue coldSync)))
                               (int (length (spaceQueue coldSync))))"
    by (simp add: fields fcard_fempty)
  have ls: "loads listService [] [''a'', ''b''] = [(''a'', True), (''b'', False)]"
    by (simp add: listService_def)
  have ls': "[(''a'', True), (''b'', False)] =
               loads listService (service coldSync) (take 2 (spaceQueue coldSync))"
    by (simp add: fields listService_def)
  from checkCache_tick [OF fields(1) fields(2) r budget n ls'] ls
  show ?thesis by (simp add: fields count1_def)
qed

text \<open>
  The claim as the spec words it, for every tick, fails outside these conditions.
  With a negative limit the number \<open>n\<close> is negative and the tick panics on the
  slice bound, nothing dequeued. With the miss counter not wired the tick panics
  at the first load that succeeds, the id dequeued and not put into the active
  set; with the hit counter not wired it panics at the first load that fails.
\<close>

theorem checkCache_panics:
  "fst (checkCache listService negativeSync) = Panic \<and>
   spaceQueue (snd (checkCache listService negativeSync)) = [''a'', ''b'', ''c'', ''d''] \<and>
   fst (checkCache listService noMissSync) = Panic \<and>
   spaceQueue (snd (checkCache listService noMissSync)) = [''c'', ''d''] \<and>
   syncQueue (snd (checkCache listService noMissSync)) = {||} \<and>
   fst (checkCache listService noHitSync) = Panic \<and>
   spaceQueue (snd (checkCache listService noHitSync)) = [''c'', ''d''] \<and>
   syncQueue (snd (checkCache listService noHitSync)) = {|''a''|} \<and>
   atomics (snd (checkCache listService noHitSync)) 1 = 1 \<and>
   atomics (snd (checkCache listService noHitSync)) 0 = 0"
  by code_simp

section \<open>Properties of the peer manager\<close>

lemma getResponsiblePeersObjects_appends:
  "responsiblePeers (snd (getResponsiblePeersObjects nodeIds now now' n)) =
     responsiblePeers n @
     (if fresh now n then [] else map (\<lambda>p. \<lparr>peerId = p, lastFail = 0\<rparr>) nodeIds)"
  by (simp add: getResponsiblePeersObjects_def Let_def)

lemma calls_peerIds:
  "map peerId (responsiblePeers (calls nodeIds ts n)) =
     map peerId (responsiblePeers n) @ concat (replicate (refreshes nodeIds ts n) nodeIds)"
proof (induction ts arbitrary: n)
  case Nil
  show ?case by simp
next
  case (Cons t ts)
  obtain now now' where t: "t = (now, now')" by (cases t)
  let ?n1 = "snd (getResponsiblePeersObjects nodeIds now now' n)"
  have ids: "map peerId (map (\<lambda>p. \<lparr>peerId = p, lastFail = 0\<rparr>) nodeIds) = nodeIds"
    by (simp add: comp_def)
  have "map peerId (responsiblePeers (calls nodeIds (t # ts) n)) =
          map peerId (responsiblePeers ?n1) @
          concat (replicate (refreshes nodeIds ts ?n1) nodeIds)"
    using Cons.IH [of ?n1] t by simp
  also have "map peerId (responsiblePeers ?n1) =
          map peerId (responsiblePeers n) @ (if fresh now n then [] else nodeIds)"
    unfolding getResponsiblePeersObjects_appends using ids by simp
  finally show ?case using t by simp
qed

lemma count_list_concat_replicate:
  "count_list (concat (replicate k xs)) x = k * count_list xs x"
  by (induction k) (simp_all add: count_list_append)

lemma count_list_distinct:
  "distinct xs \<Longrightarrow> x \<in> set xs \<Longrightarrow> count_list xs x = 1"
  by (induction xs) (auto simp: count_list_0_iff)

text \<open>
  C9. A call either finds the list fresh and leaves it, or refreshes it by
  appending one entry for every configured node id, in order, after the entries
  already there; nothing is ever removed. So from an empty list, while the
  configuration stays the same list of distinct ids, every configured id occurs in
  the list as many times as there have been refreshes.
\<close>

theorem responsiblePeers_append_only:
  assumes "responsiblePeers n0 = []" and "distinct nodeIds" and "p \<in> set nodeIds"
  shows "responsiblePeers (snd (getResponsiblePeersObjects nodeIds now now' n)) =
           responsiblePeers n @
           (if length (responsiblePeers n) \<noteq> 0 \<and>
               since now (responsiblePeersUpdated n) < minute
            then [] else map (\<lambda>q. \<lparr>peerId = q, lastFail = 0\<rparr>) nodeIds) \<and>
         count_list (map peerId (responsiblePeers (calls nodeIds ts n0))) p =
           refreshes nodeIds ts n0"
proof -
  have "count_list (map peerId (responsiblePeers (calls nodeIds ts n0))) p =
          refreshes nodeIds ts n0 * count_list nodeIds p"
    using assms(1) by (simp add: calls_peerIds count_list_concat_replicate)
  with count_list_distinct [OF assms(2,3)]
  have "count_list (map peerId (responsiblePeers (calls nodeIds ts n0))) p =
          refreshes nodeIds ts n0"
    by simp
  then show ?thesis
    by (simp add: getResponsiblePeersObjects_appends fresh_def)
qed

theorem responsiblePeers_append_only_witness:
  "responsiblePeers freshManager = [] \<and> distinct twoNodes \<and> ''n1'' \<in> set twoNodes \<and>
   refreshes twoNodes threeCalls freshManager = 2 \<and>
   map peerId (responsiblePeers (calls twoNodes threeCalls freshManager)) =
     [''n1'', ''n2'', ''n1'', ''n2''] \<and>
   count_list (map peerId (responsiblePeers (calls twoNodes threeCalls freshManager))) ''n1'' = 2"
proof -
  have a: "responsiblePeers freshManager = []" by (simp add: freshManager_def)
  have b: "distinct twoNodes" by (simp add: twoNodes_def)
  have c: "''n1'' \<in> set twoNodes" by (simp add: twoNodes_def)
  have k: "refreshes twoNodes threeCalls freshManager = 2"
    by (simp add: threeCalls_def freshManager_def twoNodes_def fresh_def since_def
          minute_def getResponsiblePeersObjects_def)
  have l: "map peerId (responsiblePeers (calls twoNodes threeCalls freshManager)) =
     [''n1'', ''n2'', ''n1'', ''n2'']"
    by (simp add: threeCalls_def freshManager_def twoNodes_def fresh_def since_def
          minute_def getResponsiblePeersObjects_def)
  from responsiblePeers_append_only
         [OF a b c, where now = 0 and now' = 0 and n = freshManager and ts = threeCalls]
       a b c k l
  show ?thesis by simp
qed

section \<open>Properties of the document tree\<close>

subsection \<open>The copies of the heads\<close>

text \<open>
  A slice made with length 0 stays empty under \<^verbatim>\<open>copy\<close>, whatever its
  capacity: both copies of the heads are empty, for every tree.
\<close>

lemma go_copy_into_empty: "go_copy (go_make 0 cap) src = []"
  by (simp add: go_copy_def go_make_def)

lemma headsCopy_Nil: "headsCopy t = []"
  by (simp add: headsCopy_def go_copy_into_empty)

lemma addRawChanges_heads_empty:
  assumes "addRawChanges D acl rawChanges d = (Returns (mode, res, err), d')"
  shows "OldHeads res = [] \<and> Heads_of res = []"
  using assms unfolding addRawChanges_def
  by (auto simp: headsCopy_Nil zeroAddResult_def Let_def
           split: option.splits sum.splits prod.splits if_splits Mode.splits)

text \<open>
  C1. In the scenario S1 the tree has the head \<open>r\<close> before the call and the head
  \<open>c2\<close> after it, and the call reports Append with both changes added; but the
  result carries no old head and no head.
\<close>

theorem S1_result_has_no_heads:
  "map_option Heads (tree (rootDoc True)) = Some [''r''] \<and>
   fst (AddRawChanges (scenarioDeps acceptAll) aliceAcl s1Batch (rootDoc True)) =
     Returns (\<lparr>OldHeads = [], Heads_of = [], Added = [mkRaw ''c1'', mkRaw ''c2''],
               Summary = AddResultSummaryAppend\<rparr>, None) \<and>
   map_option Heads (tree afterS1) = Some [''c2'']"
  by code_simp

subsection \<open>Rolling back\<close>

lemma rollback_keeps_heads: "headIds (rollback chs t) = headIds t \<and> rootId (rollback chs t) = rootId t"
  by (induction chs arbitrary: t) simp_all

lemma rollback_only_removes:
  "map_of (attached t) k = None \<Longrightarrow> map_of (attached (rollback chs t)) k = None"
  by (induction chs arbitrary: t) (simp_all add: delete_conv')

lemma rollback_detaches:
  "ch \<in> set chs \<Longrightarrow> map_of (attached (rollback chs t)) (ch_Id ch) = None"
proof (induction chs arbitrary: t)
  case Nil
  then show ?case by simp
next
  case (Cons c chs)
  show ?case
  proof (cases "ch = c")
    case True
    let ?t1 = "if map_of (attached t) (ch_Id c) \<noteq> None then
                 t\<lparr>attached := AList.delete (ch_Id c) (attached t)\<rparr>
               else if map_of (unAttached t) (ch_Id c) \<noteq> None then
                 t\<lparr>unAttached := AList.delete (ch_Id c) (unAttached t)\<rparr>
               else t"
    have "map_of (attached ?t1) (ch_Id c) = None"
      by (simp add: delete_conv')
    from rollback_only_removes [OF this] True show ?thesis by simp
  next
    case False
    with Cons.prems have "ch \<in> set chs" by simp
    from Cons.IH [OF this] show ?thesis by simp
  qed
qed

text \<open>
  A batch on the ordinary path (no older snapshot) whose tree the validator refuses:
  the call returns HasInvalidChanges with the zero result and touches neither the
  storage nor the listener; the tree it leaves is the one \<^verbatim>\<open>Tree.Add\<close> produced
  with the candidates deleted, so its heads are the heads \<^verbatim>\<open>Tree.Add\<close> computed.
\<close>

lemma AddRawChanges_invalid_batch:
  assumes "tree d = Some t"
    and "filterChanges D t 0 rawChanges ([], [], []) = Inr (tmp, snaps, notSeen)"
    and "notSeen \<noteq> []"
    and "\<not> (\<exists>ch \<in> set tmp. isOldSnapshot t snaps ch)"
    and "Tree_Add D t tmp = (mode, t1)"
    and "mode \<noteq> Nothing"
    and "ValidateTree D t1 acl = Some e"
  shows "AddRawChanges D acl rawChanges d =
           (Returns (zeroAddResult, Some ErrHasInvalidChanges),
            d\<lparr>tree := Some (rollback tmp t1)\<rparr>)"
proof -
  have "addRawChanges D acl rawChanges d =
          (Returns (mode, zeroAddResult, Some ErrHasInvalidChanges),
           d\<lparr>tree := Some (rollback tmp t1)\<rparr>)"
    using assms by (cases mode) (simp_all add: addRawChanges_def)
  then show ?thesis by (simp add: AddRawChanges_def)
qed

text \<open>
  C2. In the scenario S4 with a validator that refuses, the call returns
  HasInvalidChanges with the zero result, makes no storage call, and holds \<open>c1\<close> in
  neither partition; but the head of the tree, \<open>r\<close> before the call, is \<open>c1\<close>
  after it.
\<close>

theorem S4_rollback_leaves_heads:
  "map_option Heads (tree (rootDoc True)) = Some [''r''] \<and>
   fst (AddRawChanges (scenarioDeps rejectAll) aliceAcl [mkRaw ''c1''] (rootDoc True)) =
     Returns (zeroAddResult, Some ErrHasInvalidChanges) \<and>
   storageCalls afterRejected = [] \<and>
   map_option (\<lambda>t. map_of (attached t) ''c1'') (tree afterRejected) = Some None \<and>
   map_option (\<lambda>t. map_of (unAttached t) ''c1'') (tree afterRejected) = Some None \<and>
   map_option Heads (tree afterRejected) = Some [''c1'']"
  by code_simp

subsection \<open>A batch that is already known\<close>

lemma filterChanges_known:
  "\<forall>ch \<in> set rawChanges. HasChange t (rc_Id ch) \<Longrightarrow>
     filterChanges D t idx rawChanges bufs = Inr bufs"
proof (induction rawChanges arbitrary: idx)
  case Nil
  show ?case by simp
next
  case (Cons ch rest)
  obtain tmp snaps notSeen where b: "bufs = (tmp, snaps, notSeen)" by (cases bufs) auto
  from Cons show ?case unfolding b by simp
qed

lemma notify_storageCalls:
  "storageCalls (notify mode d) = storageCalls d \<and> tree (notify mode d) = tree d"
  by (simp add: notify_def split: Mode.splits)

text \<open>
  When the tree holds every id of the batch, attached or unattached, the call
  returns the summary Nothing with nothing added and makes no call of
  AddRawChange; it compacts the tree and makes one call of SetHeads, with the
  heads of the compacted tree.
\<close>

lemma AddRawChanges_known:
  assumes "tree d = Some t"
    and "\<forall>ch \<in> set rawChanges. HasChange t (rc_Id ch)"
  shows "\<exists>err d'.
           AddRawChanges D acl rawChanges d =
             (Returns (\<lparr>OldHeads = [], Heads_of = [], Added = [],
                        Summary = AddResultSummaryNothing\<rparr>, err), d') \<and>
           storageCalls d' = storageCalls d @ [SetHeadsCall (Heads (reduceTree D t))] \<and>
           tree d' = Some (reduceTree D t)"
proof -
  have inner: "addRawChanges D acl rawChanges d =
          (Returns (zeroMode D,
             \<lparr>OldHeads = [], Heads_of = [], Added = [],
              Summary = AddResultSummaryNothing\<rparr>, None), d)"
    using assms(1) filterChanges_known [OF assms(2), of D 0 "([], [], [])"]
    by (simp add: addRawChanges_def headsCopy_Nil)
  let ?d2 = "d\<lparr>tree := Some (reduceTree D t)\<rparr>"
  obtain err s where sh:
    "storage_SetHeads D (treeStorage ?d2) (Heads (reduceTree D t)) = (err, s)"
    by (cases "storage_SetHeads D (treeStorage ?d2) (Heads (reduceTree D t))")
  show ?thesis
  proof (cases err)
    case None
    with inner assms(1) sh show ?thesis
      by (simp add: AddRawChanges_def callSetHeads_def notify_storageCalls)
  next
    case (Some e)
    with inner assms(1) sh show ?thesis
      by (simp add: AddRawChanges_def callSetHeads_def)
  qed
qed

subsection \<open>What the tree holds after a call\<close>

lemma drain_holds:
  "HasChange (drain n t) k = HasChange t k \<and> rootId (drain n t) = rootId t"
proof (induction n arbitrary: t)
  case 0
  show ?case by simp
next
  case (Suc n)
  show ?case
  proof (cases "filter (\<lambda>kc. parentsAttached t (snd kc)) (unAttached t)")
    case Nil
    then show ?thesis by simp
  next
    case (Cons kc rest)
    let ?t1 = "t\<lparr>attached := AList.update (fst kc) (snd kc) (attached t),
                  unAttached := AList.delete (fst kc) (unAttached t)\<rparr>"
    have "kc \<in> set (filter (\<lambda>kc. parentsAttached t (snd kc)) (unAttached t))"
      unfolding Cons by simp
    then have "kc \<in> set (unAttached t)" by simp
    then have "fst kc \<in> fst ` set (unAttached t)" by (rule imageI)
    then have held: "map_of (unAttached t) (fst kc) \<noteq> None"
      by (simp add: map_of_eq_None_iff)
    have "HasChange ?t1 k = HasChange t k"
      using held by (auto simp: HasChange_def update_conv' delete_conv')
    moreover have "rootId ?t1 = rootId t" by simp
    moreover have "drain (Suc n) t = drain n ?t1" unfolding drain.simps Cons by simp
    ultimately show ?thesis using Suc.IH [of ?t1] by simp
  qed
qed

lemma addOne_holds:
  "HasChange (snd (addOne (any, t) c)) k = (HasChange t k \<or> k = ch_Id c) \<and>
   rootId (snd (addOne (any, t) c)) = rootId t"
proof (cases "parentsAttached t c")
  case True
  let ?t1 = "t\<lparr>attached := AList.update (ch_Id c) c (attached t)\<rparr>"
  have "HasChange ?t1 k = (HasChange t k \<or> k = ch_Id c)"
    by (auto simp: HasChange_def update_conv')
  moreover have "rootId ?t1 = rootId t" by simp
  moreover have "snd (addOne (any, t) c) = drain (length (unAttached t)) ?t1"
    using True by (simp add: addOne_def)
  ultimately show ?thesis
    using drain_holds [of "length (unAttached t)" ?t1 k] by simp
next
  case False
  let ?t1 = "t\<lparr>unAttached := AList.update (ch_Id c) c (unAttached t)\<rparr>"
  have "HasChange ?t1 k = (HasChange t k \<or> k = ch_Id c)"
    by (auto simp: HasChange_def update_conv')
  moreover have "snd (addOne (any, t) c) = ?t1"
    using False by (simp add: addOne_def)
  ultimately show ?thesis by simp
qed

lemma foldl_addOne_holds:
  "HasChange (snd (foldl addOne acc cs)) k =
     (HasChange (snd acc) k \<or> k \<in> ch_Id ` set cs) \<and>
   rootId (snd (foldl addOne acc cs)) = rootId (snd acc)"
proof (induction cs arbitrary: acc)
  case Nil
  show ?case by simp
next
  case (Cons c cs)
  obtain any t where acc: "acc = (any, t)" by (cases acc)
  show ?case
    using Cons.IH [of "addOne (any, t) c"] addOne_holds [of any t c k]
    unfolding acc by auto
qed

lemma spec_Tree_Add_holds:
  "HasChange (snd (spec_Tree_Add t cs)) k = (HasChange t k \<or> k \<in> ch_Id ` set cs) \<and>
   rootId (snd (spec_Tree_Add t cs)) = rootId t"
proof -
  obtain any t1 where f: "foldl addOne (False, t) cs = (any, t1)"
    by (cases "foldl addOne (False, t) cs")
  from foldl_addOne_holds [of "(False, t)" cs k] f
  have t1: "HasChange t1 k = (HasChange t k \<or> k \<in> ch_Id ` set cs)" "rootId t1 = rootId t"
    by simp_all
  show ?thesis
    using t1 unfolding spec_Tree_Add_def f
    by (simp add: Let_def HasChange_def)
qed

lemma spec_reduceTree_same_root:
  assumes "rootId (spec_reduceTree t) = rootId t"
  shows "spec_reduceTree t = t"
proof (cases "filter (\<lambda>kc. ch_IsSnapshot (snd kc) \<and> fst kc \<noteq> rootId t \<and>
                     list_all (\<lambda>h. fst kc \<in> set (ancestors (length (attached t)) t [h]))
                       (headIds t))
             (attached t)")
  case Nil
  then show ?thesis by (simp add: spec_reduceTree_def)
next
  case (Cons kc rest)
  have "kc \<in> set (filter (\<lambda>kc. ch_IsSnapshot (snd kc) \<and> fst kc \<noteq> rootId t \<and>
                     list_all (\<lambda>h. fst kc \<in> set (ancestors (length (attached t)) t [h]))
                       (headIds t))
             (attached t))"
    unfolding Cons by simp
  then have "fst kc \<noteq> rootId t" by simp
  moreover have "rootId (spec_reduceTree t) = fst kc"
    unfolding spec_reduceTree_def Cons by (simp add: Let_def)
  ultimately show ?thesis using assms by simp
qed

text \<open>
  The filtering loop with a codec that keeps the id of the raw change: every raw
  change of the batch is held by the tree or has its id among the candidates.
\<close>

lemma filterChanges_ids:
  assumes "\<forall>raw c. NewVerifiedChangeFromRaw D raw = Inr c \<longrightarrow> ch_Id c = rc_Id raw"
  shows "filterChanges D t idx xs (tmp0, s0, n0) = Inr (tmp, s, n) \<Longrightarrow>
           set tmp0 \<subseteq> set tmp \<and>
           (\<forall>raw \<in> set xs. HasChange t (rc_Id raw) \<or> rc_Id raw \<in> ch_Id ` set tmp)"
proof (induction xs arbitrary: idx tmp0 s0 n0)
  case Nil
  then show ?case by simp
next
  case (Cons raw xs)
  show ?case
  proof (cases "HasChange t (rc_Id raw)")
    case True
    with Cons.prems have "filterChanges D t (Suc idx) xs (tmp0, s0, n0) = Inr (tmp, s, n)"
      by simp
    from Cons.IH [OF this] True show ?thesis by simp
  next
    case False
    show ?thesis
    proof (cases "NewVerifiedChangeFromRaw D raw")
      case (Inl e)
      with Cons.prems False show ?thesis by simp
    next
      case (Inr c)
      with assms have cid: "ch_Id c = rc_Id raw" by simp
      from Cons.prems False Inr
      have "filterChanges D t (Suc idx) xs
              (tmp0 @ [c], (if ch_IsSnapshot c then s0 @ [c] else s0), n0 @ [idx])
            = Inr (tmp, s, n)"
        by simp
      from Cons.IH [OF this]
      have sub: "set (tmp0 @ [c]) \<subseteq> set tmp"
        and rest: "\<forall>raw \<in> set xs. HasChange t (rc_Id raw) \<or> rc_Id raw \<in> ch_Id ` set tmp"
        by simp_all
      from sub have "c \<in> set tmp" by simp
      then have "rc_Id raw \<in> ch_Id ` set tmp" using cid by force
      with sub rest show ?thesis by simp
    qed
  qed
qed

lemma filterChanges_lengths:
  "filterChanges D t idx xs (tmp0, s0, n0) = Inr (tmp, s, n) \<Longrightarrow>
     length tmp + length n0 = length n + length tmp0"
proof (induction xs arbitrary: idx tmp0 s0 n0)
  case Nil
  then show ?case by simp
next
  case (Cons raw xs)
  show ?case
  proof (cases "HasChange t (rc_Id raw)")
    case True
    with Cons.prems have "filterChanges D t (Suc idx) xs (tmp0, s0, n0) = Inr (tmp, s, n)"
      by simp
    from Cons.IH [OF this] show ?thesis .
  next
    case False
    show ?thesis
    proof (cases "NewVerifiedChangeFromRaw D raw")
      case (Inl e)
      with Cons.prems False show ?thesis by simp
    next
      case (Inr c)
      from Cons.prems False Inr
      have "filterChanges D t (Suc idx) xs
              (tmp0 @ [c], (if ch_IsSnapshot c then s0 @ [c] else s0), n0 @ [idx])
            = Inr (tmp, s, n)"
        by simp
      from Cons.IH [OF this] show ?thesis by simp
    qed
  qed
qed

text \<open>
  A call of \<^verbatim>\<open>addRawChanges\<close> that returns without error and without a rebuild,
  the tree operations being those of the spec: the tree it leaves has the root it
  had and holds every id of the batch.
\<close>

lemma addRawChanges_holds_batch:
  assumes codec: "\<forall>raw c. NewVerifiedChangeFromRaw D raw = Inr c \<longrightarrow> ch_Id c = rc_Id raw"
    and add: "Tree_Add D = spec_Tree_Add"
    and t: "tree d = Some t"
    and run: "addRawChanges D acl xs d = (Returns (mode, res, None), d')"
    and sum: "Summary res \<noteq> AddResultSummaryRebuild"
  shows "\<exists>t'. tree d' = Some t' \<and> rootId t' = rootId t \<and>
              (\<forall>raw \<in> set xs. HasChange t' (rc_Id raw))"
proof (cases "filterChanges D t 0 xs ([], [], [])")
  case (Inl e)
  with run t show ?thesis by (simp add: addRawChanges_def)
next
  case (Inr bufs)
  obtain tmp snaps notSeen where bufs: "bufs = (tmp, snaps, notSeen)"
    by (cases bufs) auto
  note fc = Inr [unfolded bufs]
  from filterChanges_ids [OF codec fc]
  have ids: "\<forall>raw \<in> set xs. HasChange t (rc_Id raw) \<or> rc_Id raw \<in> ch_Id ` set tmp"
    by simp
  show ?thesis
  proof (cases "notSeen = []")
    case True
    with run t fc have "d' = d"
      by (simp add: addRawChanges_def Let_def)
    moreover have "tmp = []"
      using filterChanges_lengths [OF fc] True by simp
    ultimately show ?thesis using t ids by simp
  next
    case False
    then have ne: "length notSeen \<noteq> 0" by simp
    show ?thesis
    proof (cases "\<exists>ch \<in> set tmp. isOldSnapshot t snaps ch")
      case True
      with run t fc ne sum show ?thesis
        by (auto simp: addRawChanges_def zeroAddResult_def Let_def
                 split: prod.splits option.splits)
    next
      case False
      obtain m t1 where ta: "spec_Tree_Add t tmp = (m, t1)"
        by (cases "spec_Tree_Add t tmp")
      from spec_Tree_Add_holds [of t tmp] ta
      have held: "\<And>k. HasChange t1 k = (HasChange t k \<or> k \<in> ch_Id ` set tmp)"
        and root: "rootId t1 = rootId t"
        by simp_all
      from ids held have all: "\<forall>raw \<in> set xs. HasChange t1 (rc_Id raw)" by simp
      from run t fc ne False ta add have "tree d' = Some t1"
        by (cases m)
           (auto simp: addRawChanges_def Let_def split: option.splits)
      with root all show ?thesis by simp
    qed
  qed
qed

lemma storeAdded_tree: "tree (snd (storeAdded D chs d)) = tree d"
proof (induction chs arbitrary: d)
  case Nil
  show ?case by simp
next
  case (Cons ch chs)
  obtain e s where c: "storage_AddRawChange D (treeStorage d) ch = (e, s)"
    by (cases "storage_AddRawChange D (treeStorage d) ch")
  show ?case
    using Cons.IH c by (cases e) (simp_all add: callAddRawChange_def)
qed

text \<open>
  A call of \<^verbatim>\<open>AddRawChanges\<close> that returns without error: the inner call did so
  too, with the same result, and the tree left is the compacted tree of the inner
  call.
\<close>

lemma AddRawChanges_inner:
  assumes "AddRawChanges D acl xs d = (Returns (res, None), d1)"
  obtains mode d' t' where "addRawChanges D acl xs d = (Returns (mode, res, None), d')"
    and "tree d' = Some t'" and "tree d1 = Some (reduceTree D t')"
proof -
  obtain r d' where inner: "addRawChanges D acl xs d = (r, d')"
    by (cases "addRawChanges D acl xs d")
  show thesis
  proof (cases r)
    case Panics
    with assms inner show thesis by (simp add: AddRawChanges_def)
  next
    case (Returns x)
    obtain mode res' e where x: "x = (mode, res', e)" by (cases x) auto
    show thesis
    proof (cases e)
      case (Some err)
      with assms inner Returns x show thesis by (simp add: AddRawChanges_def)
    next
      case None
      note e = None
      show thesis
      proof (cases "tree d'")
        case None
        with assms inner Returns x e show thesis by (simp add: AddRawChanges_def)
      next
        case (Some t')
        let ?d2 = "d'\<lparr>tree := Some (reduceTree D t')\<rparr>"
        obtain e3 d3 where st: "storeAdded D (Added res') ?d2 = (e3, d3)"
          by (cases "storeAdded D (Added res') ?d2")
        from storeAdded_tree [of D "Added res'" ?d2] st
        have t3: "tree d3 = Some (reduceTree D t')" by simp
        obtain e4 s4 where sh:
          "storage_SetHeads D (treeStorage d3) (Heads (reduceTree D t')) = (e4, s4)"
          by (cases "storage_SetHeads D (treeStorage d3) (Heads (reduceTree D t'))")
        from assms inner Returns x e Some st sh t3
        have "res = res' \<and> tree d1 = Some (reduceTree D t')"
          by (cases e3; cases e4)
             (auto simp: AddRawChanges_def callSetHeads_def notify_def Let_def
                   split: Mode.splits if_splits)
        with inner Returns x e Some that show thesis by simp
      qed
    qed
  qed
qed

subsection \<open>The same batch twice\<close>

text \<open>
  C3, as the code has it. The same batch is given twice, the codec keeping the id
  of a raw change and \<^verbatim>\<open>Tree.Add\<close> and \<^verbatim>\<open>reduceTree\<close> being those of the spec.
  When the first call returns without error, with a summary other than Rebuild,
  and leaves the root where it was, the second call returns the summary Nothing
  with nothing added; it makes no call of AddRawChange and one call of SetHeads,
  with the heads the first call left, and leaves the tree as the first call left
  it.
\<close>

theorem AddRawChanges_twice:
  assumes codec: "\<forall>raw c. NewVerifiedChangeFromRaw D raw = Inr c \<longrightarrow> ch_Id c = rc_Id raw"
    and add: "Tree_Add D = spec_Tree_Add"
    and red: "reduceTree D = spec_reduceTree"
    and t: "tree d = Some t"
    and first: "AddRawChanges D acl xs d = (Returns (res, None), d1)"
    and sum: "Summary res \<noteq> AddResultSummaryRebuild"
    and t1: "tree d1 = Some t1"
    and root: "RootId t1 = RootId t"
  shows "\<exists>err d2.
           AddRawChanges D acl xs d1 =
             (Returns (\<lparr>OldHeads = [], Heads_of = [], Added = [],
                        Summary = AddResultSummaryNothing\<rparr>, err), d2) \<and>
           storageCalls d2 = storageCalls d1 @ [SetHeadsCall (Heads t1)] \<and>
           tree d2 = Some t1"
proof -
  from AddRawChanges_inner [OF first] obtain mode d' t' where
    inner: "addRawChanges D acl xs d = (Returns (mode, res, None), d')"
    and t': "tree d' = Some t'" and d1: "tree d1 = Some (reduceTree D t')"
    by blast
  from addRawChanges_holds_batch [OF codec add t inner sum] t'
  have root': "rootId t' = rootId t"
    and held: "\<forall>raw \<in> set xs. HasChange t' (rc_Id raw)"
    by simp_all
  from d1 t1 red have eq: "t1 = spec_reduceTree t'" by simp
  with root root' have "rootId (spec_reduceTree t') = rootId t'"
    by (simp add: RootId_def)
  then have same: "spec_reduceTree t' = t'" by (rule spec_reduceTree_same_root)
  with eq have tt: "t1 = t'" by simp
  from held tt have held1: "\<forall>raw \<in> set xs. HasChange t1 (rc_Id raw)" by simp
  from red same tt have stay: "reduceTree D t1 = t1" by simp
  from AddRawChanges_known [OF t1 held1, of D acl] show ?thesis
    unfolding stay .
qed

theorem AddRawChanges_twice_witness:
  "fst (AddRawChanges (scenarioDeps acceptAll) aliceAcl s1Batch (rootDoc True)) =
     Returns (\<lparr>OldHeads = [], Heads_of = [], Added = s1Batch,
               Summary = AddResultSummaryAppend\<rparr>, None) \<and>
   map_option RootId (tree (rootDoc True)) = Some ''r'' \<and>
   map_option RootId (tree afterS1) = Some ''r'' \<and>
   (\<exists>err d2.
      AddRawChanges (scenarioDeps acceptAll) aliceAcl s1Batch afterS1 =
        (Returns (\<lparr>OldHeads = [], Heads_of = [], Added = [],
                   Summary = AddResultSummaryNothing\<rparr>, err), d2) \<and>
      storageCalls d2 = storageCalls afterS1 @ [SetHeadsCall [''c2'']] \<and>
      map_option Heads (tree d2) = Some [''c2''])"
proof -
  let ?D = "scenarioDeps acceptAll"
  let ?res = "\<lparr>OldHeads = [], Heads_of = [], Added = s1Batch,
               Summary = AddResultSummaryAppend\<rparr>"
  have codec: "\<forall>raw c. NewVerifiedChangeFromRaw ?D raw = Inr c \<longrightarrow> ch_Id c = rc_Id raw"
    by (auto simp: scenarioDeps_def decodeByTable_def mkChange_def NewChange_def
             split: if_splits)
  have add: "Tree_Add ?D = spec_Tree_Add" and red: "reduceTree ?D = spec_reduceTree"
    by (simp_all add: scenarioDeps_def)
  have t: "tree (rootDoc True) = Some rootTree" by (simp add: rootDoc_def)
  have run: "fst (AddRawChanges ?D aliceAcl s1Batch (rootDoc True)) = Returns (?res, None)"
    by code_simp
  then have first: "AddRawChanges ?D aliceAcl s1Batch (rootDoc True) =
                      (Returns (?res, None), afterS1)"
    by (simp add: afterS1_def prod_eq_iff)
  have sum: "Summary ?res \<noteq> AddResultSummaryRebuild" by simp
  have t1: "tree afterS1 = Some (the (tree afterS1))" by code_simp
  have root: "RootId (the (tree afterS1)) = RootId rootTree" by code_simp
  have heads: "Heads (the (tree afterS1)) = [''c2'']" by code_simp
  have r0: "map_option RootId (tree (rootDoc True)) = Some ''r''" by code_simp
  have r1: "map_option RootId (tree afterS1) = Some ''r''" by code_simp
  from AddRawChanges_twice [OF codec add red t first sum t1 root]
  obtain err d2 where
    "AddRawChanges ?D aliceAcl s1Batch afterS1 =
        (Returns (\<lparr>OldHeads = [], Heads_of = [], Added = [],
                   Summary = AddResultSummaryNothing\<rparr>, err), d2)"
    "storageCalls d2 = storageCalls afterS1 @ [SetHeadsCall [''c2'']]"
    "map_option Heads (tree d2) = Some [''c2'']"
    unfolding heads by (auto simp: heads)
  with run r0 r1 show ?thesis by blast
qed

text \<open>
  The claim as the spec words it fails, and so does each weaker form of it that
  drops one of the conditions above. The batch of S1 given twice: the second call
  reports Nothing, and it calls SetHeads. The batch of S5 given twice: the first
  call appends and the compaction moves the root to the snapshot \<open>s2\<close>, dropping
  \<open>c1\<close>; the second call does not know \<open>c1\<close>, rebuilds, reports \<open>c1\<close> as added
  and writes it again. That second call returned without error and left the root
  where it was, with the summary Rebuild: the third call rebuilds again. With a
  builder that fails, the call on the compacted tree returns the error and leaves
  no tree, and the call after it panics. With a codec that decodes the raw change
  \<open>x\<close> into the change \<open>c1\<close>, the tree never holds \<open>x\<close>, and the second call
  appends again.
\<close>

theorem repeated_batch_writes:
  "fst (AddRawChanges (scenarioDeps acceptAll) aliceAcl s1Batch (rootDoc True)) =
     Returns (\<lparr>OldHeads = [], Heads_of = [], Added = s1Batch,
               Summary = AddResultSummaryAppend\<rparr>, None) \<and>
   fst (AddRawChanges (scenarioDeps acceptAll) aliceAcl s1Batch afterS1) =
     Returns (\<lparr>OldHeads = [], Heads_of = [], Added = [],
               Summary = AddResultSummaryNothing\<rparr>, None) \<and>
   storageCalls (snd (AddRawChanges (scenarioDeps acceptAll) aliceAcl s1Batch afterS1)) =
     storageCalls afterS1 @ [SetHeadsCall [''c2'']] \<and>
   fst (AddRawChanges rebuildingDeps aliceAcl s5Batch (rootDoc True)) =
     Returns (\<lparr>OldHeads = [], Heads_of = [], Added = s5Batch,
               Summary = AddResultSummaryAppend\<rparr>, None) \<and>
   map_option RootId (tree (rootDoc True)) = Some ''r'' \<and>
   map_option RootId (tree afterS5) = Some ''s2'' \<and>
   fst (AddRawChanges rebuildingDeps aliceAcl s5Batch afterS5) =
     Returns (\<lparr>OldHeads = [], Heads_of = [], Added = [mkRaw ''c1''],
               Summary = AddResultSummaryRebuild\<rparr>, None) \<and>
   storageCalls afterS5twice =
     storageCalls afterS5 @ [AddRawChangeCall (mkRaw ''c1''), SetHeadsCall [''s2'']] \<and>
   map_option RootId (tree afterS5twice) = Some ''s2'' \<and>
   fst (AddRawChanges rebuildingDeps aliceAcl s5Batch afterS5twice) =
     Returns (\<lparr>OldHeads = [], Heads_of = [], Added = [mkRaw ''c1''],
               Summary = AddResultSummaryRebuild\<rparr>, None) \<and>
   storageCalls (snd (AddRawChanges rebuildingDeps aliceAcl s5Batch afterS5twice)) =
     storageCalls afterS5twice @ [AddRawChangeCall (mkRaw ''c1''), SetHeadsCall [''s2'']] \<and>
   fst (AddRawChanges brokenDeps aliceAcl s5Batch afterS5) =
     Returns (zeroAddResult, Some (ErrExternal ''no build'')) \<and>
   tree afterS5broken = None \<and>
   fst (AddRawChanges brokenDeps aliceAcl s5Batch afterS5broken) = Panics \<and>
   fst (AddRawChanges renamingDeps aliceAcl [mkRaw ''x''] (rootDoc True)) =
     Returns (\<lparr>OldHeads = [], Heads_of = [], Added = [],
               Summary = AddResultSummaryAppend\<rparr>, None) \<and>
   map_option RootId (tree afterRenamed) = Some ''r'' \<and>
   fst (AddRawChanges renamingDeps aliceAcl [mkRaw ''x''] afterRenamed) =
     Returns (\<lparr>OldHeads = [], Heads_of = [], Added = [],
               Summary = AddResultSummaryAppend\<rparr>, None)"
  by code_simp

subsection \<open>Notifying after \<^verbatim>\<open>AddContent\<close>\<close>

lemma callAddRawChange_listener:
  "callAddRawChange D ch d = (e, d') \<Longrightarrow>
     updateListener d' = updateListener d \<and> listenerCalls d' = listenerCalls d"
  by (auto simp: callAddRawChange_def split: prod.splits)

lemma callSetHeads_listener:
  "callSetHeads D hs d = (e, d') \<Longrightarrow>
     updateListener d' = updateListener d \<and> listenerCalls d' = listenerCalls d"
  by (auto simp: callSetHeads_def split: prod.splits)

lemma AddContent_body_listener:
  assumes "AddContent_body D acl content now d = (r, d')"
  shows "updateListener d' = updateListener d \<and> listenerCalls d' = listenerCalls d"
  using assms unfolding AddContent_body_def Let_def
  by (auto split: option.splits sum.splits result.splits prod.splits
           dest!: callAddRawChange_listener callSetHeads_listener)

text \<open>
  C8. Every call of AddContent on a tree with a listener installed adds exactly one
  call of Update to the calls the listener has received, whatever way the body
  leaves: a normal return, any error return, or a panic. With no listener installed
  nothing is called.
\<close>

theorem AddContent_notifies_once:
  "listenerCalls (snd (AddContent D acl content now d)) =
     listenerCalls d @ (if updateListener d then [UpdateCall] else [])"
proof -
  obtain r d1 where body: "AddContent_body D acl content now d = (r, d1)"
    by (cases "AddContent_body D acl content now d")
  from AddContent_body_listener [OF body] body show ?thesis
    by (simp add: AddContent_def)
qed

theorem AddContent_notifies_once_witness:
  "fst (AddContent (scenarioDeps acceptAll) noKeyAcl aliceContent 5 (rootDoc True)) =
     Returns (None, Some ErrNoReadKey) \<and>
   storageCalls (snd (AddContent (scenarioDeps acceptAll) noKeyAcl aliceContent 5
                        (rootDoc True))) = [] \<and>
   listenerCalls (snd (AddContent (scenarioDeps acceptAll) noKeyAcl aliceContent 5
                         (rootDoc True))) = [UpdateCall] \<and>
   fst (AddContent (scenarioDeps acceptAll) aliceAcl aliceContent 5 (rootDoc True)) =
     Returns (Some \<lparr>rc_Payload = ''text'', rc_Signature = ''sigtext'', rc_Id = ''text''\<rparr>,
              None) \<and>
   listenerCalls (snd (AddContent (scenarioDeps acceptAll) aliceAcl aliceContent 5
                         (rootDoc True))) = [UpdateCall]"
proof -
  have a: "fst (AddContent (scenarioDeps acceptAll) noKeyAcl aliceContent 5 (rootDoc True)) =
     Returns (None, Some ErrNoReadKey)"
    by code_simp
  have b: "storageCalls (snd (AddContent (scenarioDeps acceptAll) noKeyAcl aliceContent 5
                        (rootDoc True))) = []"
    by code_simp
  have c: "fst (AddContent (scenarioDeps acceptAll) aliceAcl aliceContent 5 (rootDoc True)) =
     Returns (Some \<lparr>rc_Payload = ''text'', rc_Signature = ''sigtext'', rc_Id = ''text''\<rparr>,
              None)"
    by code_simp
  have l: "listenerCalls (rootDoc True) = []" "updateListener (rootDoc True)"
    by (simp_all add: rootDoc_def)
  from AddContent_notifies_once [of "scenarioDeps acceptAll" noKeyAcl aliceContent 5 "rootDoc True"]
       AddContent_notifies_once [of "scenarioDeps acceptAll" aliceAcl aliceContent 5 "rootDoc True"]
       a b c l
  show ?thesis by simp
qed

end
